theory Spec2Isabelle
  imports Main "HOL-Library.Word"
begin

section \<open>Memory model\<close>

text \<open>
  The sources are the header \<^verbatim>\<open>binaryninjaapi.h\<close>, the implementation of
  \<^verbatim>\<open>DataBuffer\<close> and the declarations of \<^verbatim>\<open>ui/commands.h\<close>. Three pieces of logic
  have their bodies there: \<^verbatim>\<open>RefCountObject\<close> (an intrusive reference count),
  \<^verbatim>\<open>Ref<T>\<close> (the smart pointer over it) and \<^verbatim>\<open>DataBuffer\<close> (a byte buffer that
  forwards to the core). Everything else is declared only; the core library behind the
  \<^verbatim>\<open>BN...\<close> functions is outside the sources.

  \<^verbatim>\<open>RefCountObject\<close> and \<^verbatim>\<open>Ref<T>\<close> work on heap objects through raw pointers, so the
  model has an explicit object store. An address is an index into the store. A cell of
  the store is \<open>Some ob\<close> while the object constructed there is alive and \<open>None\<close> once
  \<^verbatim>\<open>delete this\<close> has released it. A
  pointer \<^verbatim>\<open>T*\<close> is an optional address, \<open>None\<close> being \<^verbatim>\<open>NULL\<close>. Calling a member
  function through \<^verbatim>\<open>NULL\<close> or through a pointer to a deleted object is undefined
  behaviour in C++; the model makes it a \<open>fault\<close> value, so that every operation is a
  total function returning either a fault or the new memory.

  The memory also keeps the list of \<^verbatim>\<open>AddRef\<close>/\<^verbatim>\<open>Release\<close> calls executed so far.
  It is ghost state: no operation reads it.
\<close>

type_synonym addr = nat
type_synonym ptr = "addr option"

datatype fault = NullDereference | UseAfterFree | InvalidHandle | OutOfBounds

text \<open>\<^verbatim>\<open>int m_refs\<close>: a 32-bit signed integer, read with \<open>sint\<close>.\<close>

record RefCountObject =
  m_refs :: "32 word"

datatype call = CallAddRef addr | CallRelease addr

record memory =
  objects :: "RefCountObject option list"
  calls :: "call list"

text \<open>\<^verbatim>\<open>RefCountObject(): m_refs(0) {}\<close>\<close>

definition RefCountObject_ctor :: RefCountObject where
  "RefCountObject_ctor = \<lparr>m_refs = 0\<rparr>"

text \<open>\<^verbatim>\<open>new T\<close>: a fresh address holding a newly constructed object.\<close>

definition new_object :: "memory \<Rightarrow> addr \<times> memory" where
  "new_object m =
     (length (objects m), m\<lparr>objects := objects m @ [Some RefCountObject_ctor]\<rparr>)"

text \<open>
  Reading \<^verbatim>\<open>this\<close> for a member call through the pointer \<open>p\<close>: a fault when \<open>p\<close> is
  null or when no object is alive at the address.
\<close>

definition deref :: "ptr \<Rightarrow> memory \<Rightarrow> fault + (addr \<times> RefCountObject)" where
  "deref p m =
     (case p of
        None \<Rightarrow> Inl NullDereference
      | Some a \<Rightarrow>
          if a < length (objects m)
          then (case objects m ! a of
                  None \<Rightarrow> Inl UseAfterFree
                | Some ob \<Rightarrow> Inr (a, ob))
          else Inl UseAfterFree)"

definition store_refs :: "addr \<Rightarrow> RefCountObject \<Rightarrow> 32 word \<Rightarrow> memory \<Rightarrow> memory" where
  "store_refs a ob n m = m\<lparr>objects := (objects m)[a := Some (ob\<lparr>m_refs := n\<rparr>)]\<rparr>"

text \<open>
  \<^verbatim>\<open>delete this\<close> first runs the destructor of the object and then releases its storage.
  \<^verbatim>\<open>~RefCountObject\<close> is virtual, so the destructor that runs is the one of the class
  \<^verbatim>\<open>T\<close> that the object was created as. It destroys the members of \<^verbatim>\<open>T\<close>, among them
  its \<^verbatim>\<open>Ref\<close> members (\<^verbatim>\<open>BinaryView\<close> has \<^verbatim>\<open>Ref<FileMetadata> m_file\<close>), each
  of which releases the object it wraps, and that may delete further objects. The classes
  derived from \<^verbatim>\<open>RefCountObject\<close> are many and their destructors differ, so the destructor
  is a parameter of the model: \<open>dtor a m\<close> is what the destructor of the object at \<open>a\<close>
  does to the memory \<open>m\<close>, or the fault it runs into. While it runs, the object is still
  in the store. The destructor of \<^verbatim>\<open>RefCountObject\<close> itself is
  \<^verbatim>\<open>virtual ~RefCountObject() {}\<close>: it does nothing.
\<close>

type_synonym destructor = "addr \<Rightarrow> memory \<Rightarrow> fault + memory"

definition RefCountObject_dtor :: destructor where
  "RefCountObject_dtor a m = Inr m"

definition delete_this :: "destructor \<Rightarrow> addr \<Rightarrow> memory \<Rightarrow> fault + memory" where
  "delete_this dtor a m =
     (case dtor a m of
        Inl e \<Rightarrow> Inl e
      | Inr m1 \<Rightarrow> Inr (m1\<lparr>objects := (objects m1)[a := None]\<rparr>))"

definition log_call :: "call \<Rightarrow> memory \<Rightarrow> memory" where
  "log_call c m = m\<lparr>calls := calls m @ [c]\<rparr>"

subsection \<open>\<^verbatim>\<open>RefCountObject::AddRef\<close> and \<^verbatim>\<open>RefCountObject::Release\<close>\<close>

text \<open>
  \<^verbatim>\<open>void AddRef()\<close>: \<^verbatim>\<open>__sync_fetch_and_add(&m_refs, 1)\<close>, or
  \<^verbatim>\<open>InterlockedIncrement((LONG*)&m_refs)\<close> under \<^verbatim>\<open>WIN32\<close>. Both add one to the 32-bit
  field in two's complement: they wrap, they do not trap.
\<close>

definition AddRef :: "ptr \<Rightarrow> memory \<Rightarrow> fault + memory" where
  "AddRef p m =
     (case deref p m of
        Inl e \<Rightarrow> Inl e
      | Inr (a, ob) \<Rightarrow> Inr (store_refs a ob (m_refs ob + 1) (log_call (CallAddRef a) m)))"

text \<open>
  \<^verbatim>\<open>void Release()\<close>: \<^verbatim>\<open>if (__sync_fetch_and_add(&m_refs, -1) == 1) delete this;\<close>
  The builtin returns the value before the addition. The first argument is the
  destructor that \<^verbatim>\<open>delete this\<close> runs.
\<close>

definition Release :: "destructor \<Rightarrow> ptr \<Rightarrow> memory \<Rightarrow> fault + memory" where
  "Release dtor p m =
     (case deref p m of
        Inl e \<Rightarrow> Inl e
      | Inr (a, ob) \<Rightarrow>
          (let old = m_refs ob;
               m1 = store_refs a ob (old + (- 1)) (log_call (CallRelease a) m)
           in if old = 1 then delete_this dtor a m1 else Inr m1))"

text \<open>
  The \<^verbatim>\<open>WIN32\<close> branch: \<^verbatim>\<open>if (InterlockedDecrement((LONG*)&m_refs) == 0) delete this;\<close>
  \<^verbatim>\<open>InterlockedDecrement\<close> returns the value after the decrement.
\<close>

definition Release_WIN32 :: "destructor \<Rightarrow> ptr \<Rightarrow> memory \<Rightarrow> fault + memory" where
  "Release_WIN32 dtor p m =
     (case deref p m of
        Inl e \<Rightarrow> Inl e
      | Inr (a, ob) \<Rightarrow>
          (let new = m_refs ob - 1;
               m1 = store_refs a ob new (log_call (CallRelease a) m)
           in if new = 0 then delete_this dtor a m1 else Inr m1))"

text \<open>What a pointer refers to: the live object, if there is one.\<close>

definition object_at :: "memory \<Rightarrow> addr \<Rightarrow> RefCountObject option" where
  "object_at m a = (if a < length (objects m) then objects m ! a else None)"

section \<open>The smart pointer \<^verbatim>\<open>Ref<T>\<close>\<close>

text \<open>
  \<^verbatim>\<open>template <class T> class Ref { T* m_obj; ... }\<close>. Every member function is
  translated with its guard \<^verbatim>\<open>if (m_obj)\<close> written as \<open>m_obj this \<noteq> None\<close>. A member
  function that changes the handle returns the new handle value together with the new
  memory. The member functions that call \<^verbatim>\<open>Release\<close> have the destructor of \<^verbatim>\<open>T\<close> as
  their first argument.
\<close>

record Ref =
  m_obj :: ptr

text \<open>\<^verbatim>\<open>Ref<T>(): m_obj(NULL) {}\<close>\<close>

definition Ref_default :: Ref where
  "Ref_default = \<lparr>m_obj = None\<rparr>"

text \<open>\<^verbatim>\<open>Ref<T>(T* obj): m_obj(obj) { if (m_obj) m_obj->AddRef(); }\<close>\<close>

definition Ref_from_ptr :: "ptr \<Rightarrow> memory \<Rightarrow> fault + (Ref \<times> memory)" where
  "Ref_from_ptr obj m =
     (let this = \<lparr>m_obj = obj\<rparr>
      in if m_obj this \<noteq> None
         then (case AddRef (m_obj this) m of
                 Inl e \<Rightarrow> Inl e
               | Inr m1 \<Rightarrow> Inr (this, m1))
         else Inr (this, m))"

text \<open>\<^verbatim>\<open>Ref<T>(const Ref<T>& obj): m_obj(obj.m_obj) { if (m_obj) m_obj->AddRef(); }\<close>\<close>

definition Ref_copy :: "Ref \<Rightarrow> memory \<Rightarrow> fault + (Ref \<times> memory)" where
  "Ref_copy obj m =
     (let this = \<lparr>m_obj = m_obj obj\<rparr>
      in if m_obj this \<noteq> None
         then (case AddRef (m_obj this) m of
                 Inl e \<Rightarrow> Inl e
               | Inr m1 \<Rightarrow> Inr (this, m1))
         else Inr (this, m))"

text \<open>\<^verbatim>\<open>~Ref<T>() { if (m_obj) m_obj->Release(); }\<close>\<close>

definition Ref_dtor :: "destructor \<Rightarrow> Ref \<Rightarrow> memory \<Rightarrow> fault + memory" where
  "Ref_dtor dtor this m = (if m_obj this \<noteq> None then Release dtor (m_obj this) m else Inr m)"

text \<open>
  \<^verbatim>\<open>Ref<T>& operator=(T* obj)\<close>: save the old pointer, store the new one,
  \<^verbatim>\<open>AddRef\<close> the new one if it is not null, then \<^verbatim>\<open>Release\<close> the old one if it is
  not null.
\<close>

definition Ref_assign_ptr :: "destructor \<Rightarrow> Ref \<Rightarrow> ptr \<Rightarrow> memory \<Rightarrow> fault + (Ref \<times> memory)" where
  "Ref_assign_ptr dtor this obj m =
     (let oldObj = m_obj this;
          this1 = this\<lparr>m_obj := obj\<rparr>
      in case (if m_obj this1 \<noteq> None then AddRef (m_obj this1) m else Inr m) of
           Inl e \<Rightarrow> Inl e
         | Inr m1 \<Rightarrow>
             (case (if oldObj \<noteq> None then Release dtor oldObj m1 else Inr m1) of
                Inl e \<Rightarrow> Inl e
              | Inr m2 \<Rightarrow> Inr (this1, m2)))"

text \<open>
  \<^verbatim>\<open>Ref<T>& operator=(const Ref<T>& obj)\<close>: the same body with \<^verbatim>\<open>obj.m_obj\<close> as the
  new pointer. \<^verbatim>\<open>obj.m_obj\<close> is read once, before anything is written, so the
  translation is also right when \<^verbatim>\<open>obj\<close> is \<^verbatim>\<open>*this\<close>.
\<close>

definition Ref_assign :: "destructor \<Rightarrow> Ref \<Rightarrow> Ref \<Rightarrow> memory \<Rightarrow> fault + (Ref \<times> memory)" where
  "Ref_assign dtor this obj m =
     (let oldObj = m_obj this;
          this1 = this\<lparr>m_obj := m_obj obj\<rparr>
      in case (if m_obj this1 \<noteq> None then AddRef (m_obj this1) m else Inr m) of
           Inl e \<Rightarrow> Inl e
         | Inr m1 \<Rightarrow>
             (case (if oldObj \<noteq> None then Release dtor oldObj m1 else Inr m1) of
                Inl e \<Rightarrow> Inl e
              | Inr m2 \<Rightarrow> Inr (this1, m2)))"

text \<open>
  \<^verbatim>\<open>operator T*() const\<close>, \<^verbatim>\<open>T* operator->() const\<close> and \<^verbatim>\<open>T* GetPtr() const\<close> return
  \<^verbatim>\<open>m_obj\<close>; \<^verbatim>\<open>bool operator!() const\<close> returns \<^verbatim>\<open>m_obj == NULL\<close>; \<^verbatim>\<open>T& operator*()\<close>
  dereferences.
\<close>

definition operator_T_ptr :: "Ref \<Rightarrow> ptr" where
  "operator_T_ptr this = m_obj this"

definition operator_arrow :: "Ref \<Rightarrow> ptr" where
  "operator_arrow this = m_obj this"

definition operator_star :: "Ref \<Rightarrow> memory \<Rightarrow> fault + (addr \<times> RefCountObject)" where
  "operator_star this m = deref (m_obj this) m"

definition operator_not :: "Ref \<Rightarrow> bool" where
  "operator_not this = (m_obj this = None)"

definition GetPtr :: "Ref \<Rightarrow> ptr" where
  "GetPtr this = m_obj this"

section \<open>Programs over handles\<close>

text \<open>
  A program that manages its objects only through \<^verbatim>\<open>Ref<T>\<close> is a sequence of the
  operations below. The state is the memory together with the handles: a handle is
  named by its index, and its slot is \<open>None\<close> once its destructor has run. Using a
  handle that is not alive is a fault.

  The handles of the state are all the \<^verbatim>\<open>Ref<T>\<close> of the program, those that are members
  of a reference-counted object included. Destroying a handle is the step \<open>Dtor\<close>,
  whoever destroys it: when the last handle on an object goes and the destructor of the
  object destroys its \<^verbatim>\<open>Ref\<close> members, that is one \<open>Dtor\<close> step for the handle and one
  for each member, in the order in which the destructors run. What is left for
  \<^verbatim>\<open>delete this\<close> inside a step is the destructor of \<^verbatim>\<open>RefCountObject\<close>.
\<close>

record state =
  mem :: memory
  handles :: "Ref option list"

datatype op =
    New
  | DefaultCtor
  | PtrCtor ptr
  | CopyCtor nat
  | AssignRef nat nat
  | AssignPtr nat ptr
  | Dtor nat

definition handle :: "state \<Rightarrow> nat \<Rightarrow> Ref option" where
  "handle s i = (if i < length (handles s) then handles s ! i else None)"

definition Ref_step :: "op \<Rightarrow> state \<Rightarrow> fault + state" where
  "Ref_step c s =
     (case c of
        New \<Rightarrow> Inr (s\<lparr>mem := snd (new_object (mem s))\<rparr>)
      | DefaultCtor \<Rightarrow> Inr (s\<lparr>handles := handles s @ [Some Ref_default]\<rparr>)
      | PtrCtor obj \<Rightarrow>
          (case Ref_from_ptr obj (mem s) of
             Inl e \<Rightarrow> Inl e
           | Inr (r, m1) \<Rightarrow> Inr \<lparr>mem = m1, handles = handles s @ [Some r]\<rparr>)
      | CopyCtor j \<Rightarrow>
          (case handle s j of
             None \<Rightarrow> Inl InvalidHandle
           | Some src \<Rightarrow>
               (case Ref_copy src (mem s) of
                  Inl e \<Rightarrow> Inl e
                | Inr (r, m1) \<Rightarrow> Inr \<lparr>mem = m1, handles = handles s @ [Some r]\<rparr>))
      | AssignRef i j \<Rightarrow>
          (case (handle s i, handle s j) of
             (Some this, Some src) \<Rightarrow>
               (case Ref_assign RefCountObject_dtor this src (mem s) of
                  Inl e \<Rightarrow> Inl e
                | Inr (r, m1) \<Rightarrow> Inr \<lparr>mem = m1, handles = (handles s)[i := Some r]\<rparr>)
           | _ \<Rightarrow> Inl InvalidHandle)
      | AssignPtr i obj \<Rightarrow>
          (case handle s i of
             None \<Rightarrow> Inl InvalidHandle
           | Some this \<Rightarrow>
               (case Ref_assign_ptr RefCountObject_dtor this obj (mem s) of
                  Inl e \<Rightarrow> Inl e
                | Inr (r, m1) \<Rightarrow> Inr \<lparr>mem = m1, handles = (handles s)[i := Some r]\<rparr>))
      | Dtor i \<Rightarrow>
          (case handle s i of
             None \<Rightarrow> Inl InvalidHandle
           | Some this \<Rightarrow>
               (case Ref_dtor RefCountObject_dtor this (mem s) of
                  Inl e \<Rightarrow> Inl e
                | Inr m1 \<Rightarrow> Inr \<lparr>mem = m1, handles = (handles s)[i := None]\<rparr>)))"

text \<open>The number of live handles whose wrapped pointer is the object at \<open>a\<close>.\<close>

definition holds :: "addr \<Rightarrow> Ref option \<Rightarrow> bool" where
  "holds a h = (case h of None \<Rightarrow> False | Some r \<Rightarrow> m_obj r = Some a)"

definition handle_count :: "state \<Rightarrow> addr \<Rightarrow> nat" where
  "handle_count s a = length (filter (holds a) (handles s))"

text \<open>
  The reference-counting invariant: every live object's \<^verbatim>\<open>m_refs\<close>, read as the signed
  integer it is, equals the number of live handles on it; a deleted object has no live
  handle; and no live handle wraps an address where nothing was ever constructed.
\<close>

definition count_ok :: "state \<Rightarrow> addr \<Rightarrow> bool" where
  "count_ok s a =
     (case objects (mem s) ! a of
        Some ob \<Rightarrow> sint (m_refs ob) = int (handle_count s a)
      | None \<Rightarrow> handle_count s a = 0)"

definition in_store :: "state \<Rightarrow> Ref option \<Rightarrow> bool" where
  "in_store s h =
     (case h of
        None \<Rightarrow> True
      | Some r \<Rightarrow> (case m_obj r of None \<Rightarrow> True | Some a \<Rightarrow> a < length (objects (mem s))))"

definition ref_inv :: "state \<Rightarrow> bool" where
  "ref_inv s \<longleftrightarrow>
     list_all (count_ok s) [0..<length (objects (mem s))] \<and> list_all (in_store s) (handles s)"

text \<open>
  The operands of a well-formed operation: the handles it names are alive, and a raw
  pointer given to a handle is null or points to a live object.
\<close>

definition live_ptr :: "state \<Rightarrow> ptr \<Rightarrow> bool" where
  "live_ptr s p = (case p of None \<Rightarrow> True | Some a \<Rightarrow> object_at (mem s) a \<noteq> None)"

definition wf_op :: "state \<Rightarrow> op \<Rightarrow> bool" where
  "wf_op s c =
     (case c of
        New \<Rightarrow> True
      | DefaultCtor \<Rightarrow> True
      | PtrCtor obj \<Rightarrow> live_ptr s obj
      | CopyCtor j \<Rightarrow> handle s j \<noteq> None
      | AssignRef i j \<Rightarrow> handle s i \<noteq> None \<and> handle s j \<noteq> None
      | AssignPtr i obj \<Rightarrow> handle s i \<noteq> None \<and> live_ptr s obj
      | Dtor i \<Rightarrow> handle s i \<noteq> None)"

text \<open>\<^verbatim>\<open>INT_MAX\<close>, the largest value of \<^verbatim>\<open>int m_refs\<close>.\<close>

definition INT_MAX :: nat where
  "INT_MAX = 2147483647"

definition within_INT_MAX :: "state \<Rightarrow> bool" where
  "within_INT_MAX s =
     list_all (\<lambda>a. handle_count s a \<le> INT_MAX) [0..<length (objects (mem s))]"

text \<open>The empty program state, and running a list of operations from a state.\<close>

definition init_state :: state where
  "init_state = \<lparr>mem = \<lparr>objects = [], calls = []\<rparr>, handles = []\<rparr>"

fun run :: "op list \<Rightarrow> state \<Rightarrow> fault + state" where
  "run [] s = Inr s"
| "run (c # cs) s = (case Ref_step c s of Inl e \<Rightarrow> Inl e | Inr s1 \<Rightarrow> run cs s1)"

text \<open>Every state that a run passes through has at most \<^verbatim>\<open>INT_MAX\<close> handles on each object.\<close>

fun run_within :: "op list \<Rightarrow> state \<Rightarrow> bool" where
  "run_within [] s = True"
| "run_within (c # cs) s =
     (case Ref_step c s of Inl e \<Rightarrow> True | Inr s1 \<Rightarrow> within_INT_MAX s1 \<and> run_within cs s1)"

section \<open>\<^verbatim>\<open>DataBuffer\<close>\<close>

text \<open>
  \<^verbatim>\<open>class DataBuffer { BNDataBuffer* m_buffer; ... }\<close> owns one buffer of the core and
  forwards every operation to a core function on that handle.
\<close>

type_synonym byte = "8 word"

text \<open>
  Modelled from the spec: the core's data buffer functions \<^verbatim>\<open>BNCreateDataBuffer\<close>,
  \<^verbatim>\<open>BNDuplicateDataBuffer\<close>, \<^verbatim>\<open>BNFreeDataBuffer\<close>, \<^verbatim>\<open>BNGetDataBufferContents\<close>,
  \<^verbatim>\<open>BNGetDataBufferLength\<close>, \<^verbatim>\<open>BNSetDataBufferLength\<close>, \<^verbatim>\<open>BNClearDataBuffer\<close>,
  \<^verbatim>\<open>BNAppendDataBufferContents\<close>, \<^verbatim>\<open>BNAppendDataBuffer\<close> and \<^verbatim>\<open>BNGetDataBufferSlice\<close>.
  They belong to the core library (\<^verbatim>\<open>binaryninjacore.h\<close>), which is outside the sources;
  the spec calls them the core's allocation functions for byte buffers. The model is a
  store of byte sequences: a \<^verbatim>\<open>BNDataBuffer*\<close> is an index into the store or null, a
  cell is \<open>None\<close> once the buffer has been freed, creating and duplicating allocate a new
  cell, and using a null or freed handle is a fault.
\<close>

record core =
  buffers :: "byte list option list"

text \<open>
  Modelled from the spec: what a core function finds behind a \<^verbatim>\<open>BNDataBuffer*\<close>.
\<close>

definition buffer_at :: "ptr \<Rightarrow> core \<Rightarrow> fault + (nat \<times> byte list)" where
  "buffer_at p c =
     (case p of
        None \<Rightarrow> Inl NullDereference
      | Some h \<Rightarrow>
          if h < length (buffers c)
          then (case buffers c ! h of
                  None \<Rightarrow> Inl UseAfterFree
                | Some bs \<Rightarrow> Inr (h, bs))
          else Inl UseAfterFree)"

text \<open>
  Modelled from the spec: \<^verbatim>\<open>BNCreateDataBuffer\<close> of the core allocates a buffer with the
  given contents.
\<close>

definition BNCreateDataBuffer :: "byte list \<Rightarrow> core \<Rightarrow> ptr \<times> core" where
  "BNCreateDataBuffer data c =
     (Some (length (buffers c)), c\<lparr>buffers := buffers c @ [Some data]\<rparr>)"

text \<open>
  Modelled from the spec: \<^verbatim>\<open>BNDuplicateDataBuffer\<close> of the core allocates a buffer with
  the contents of the given one.
\<close>

definition BNDuplicateDataBuffer :: "ptr \<Rightarrow> core \<Rightarrow> fault + (ptr \<times> core)" where
  "BNDuplicateDataBuffer p c =
     (case buffer_at p c of
        Inl e \<Rightarrow> Inl e
      | Inr (h, bs) \<Rightarrow> Inr (BNCreateDataBuffer bs c))"

text \<open>Modelled from the spec: \<^verbatim>\<open>BNFreeDataBuffer\<close> of the core frees the buffer.\<close>

definition BNFreeDataBuffer :: "ptr \<Rightarrow> core \<Rightarrow> fault + core" where
  "BNFreeDataBuffer p c =
     (case buffer_at p c of
        Inl e \<Rightarrow> Inl e
      | Inr (h, bs) \<Rightarrow> Inr (c\<lparr>buffers := (buffers c)[h := None]\<rparr>))"

text \<open>
  Modelled from the spec: \<^verbatim>\<open>BNGetDataBufferContents\<close> and \<^verbatim>\<open>BNGetDataBufferLength\<close> of
  the core give the bytes of the buffer and their number.
\<close>

definition BNGetDataBufferContents :: "ptr \<Rightarrow> core \<Rightarrow> fault + byte list" where
  "BNGetDataBufferContents p c =
     (case buffer_at p c of Inl e \<Rightarrow> Inl e | Inr (h, bs) \<Rightarrow> Inr bs)"

definition BNGetDataBufferLength :: "ptr \<Rightarrow> core \<Rightarrow> fault + nat" where
  "BNGetDataBufferLength p c =
     (case buffer_at p c of Inl e \<Rightarrow> Inl e | Inr (h, bs) \<Rightarrow> Inr (length bs))"

text \<open>
  Modelled from the spec: \<^verbatim>\<open>BNSetDataBufferLength\<close> of the core cuts or extends the
  buffer to the given length. The bytes added by an extension are taken to be zero.
\<close>

definition BNSetDataBufferLength :: "ptr \<Rightarrow> nat \<Rightarrow> core \<Rightarrow> fault + core" where
  "BNSetDataBufferLength p len c =
     (case buffer_at p c of
        Inl e \<Rightarrow> Inl e
      | Inr (h, bs) \<Rightarrow>
          Inr (c\<lparr>buffers := (buffers c)[h := Some (take len bs @ replicate (len - length bs) 0)]\<rparr>))"

text \<open>Modelled from the spec: \<^verbatim>\<open>BNClearDataBuffer\<close> of the core empties the buffer.\<close>

definition BNClearDataBuffer :: "ptr \<Rightarrow> core \<Rightarrow> fault + core" where
  "BNClearDataBuffer p c =
     (case buffer_at p c of
        Inl e \<Rightarrow> Inl e
      | Inr (h, bs) \<Rightarrow> Inr (c\<lparr>buffers := (buffers c)[h := Some []]\<rparr>))"

text \<open>
  Modelled from the spec: \<^verbatim>\<open>BNAppendDataBufferContents\<close> and \<^verbatim>\<open>BNAppendDataBuffer\<close> of
  the core append bytes, or the contents of a second buffer, to the buffer.
\<close>

definition BNAppendDataBufferContents :: "ptr \<Rightarrow> byte list \<Rightarrow> core \<Rightarrow> fault + core" where
  "BNAppendDataBufferContents p data c =
     (case buffer_at p c of
        Inl e \<Rightarrow> Inl e
      | Inr (h, bs) \<Rightarrow> Inr (c\<lparr>buffers := (buffers c)[h := Some (bs @ data)]\<rparr>))"

definition BNAppendDataBuffer :: "ptr \<Rightarrow> ptr \<Rightarrow> core \<Rightarrow> fault + core" where
  "BNAppendDataBuffer p q c =
     (case buffer_at q c of
        Inl e \<Rightarrow> Inl e
      | Inr (h, data) \<Rightarrow> BNAppendDataBufferContents p data c)"

text \<open>
  Modelled from the spec: \<^verbatim>\<open>BNGetDataBufferSlice\<close> of the core allocates a buffer with
  \<^verbatim>\<open>len\<close> bytes of the given one from \<^verbatim>\<open>start\<close> on.
\<close>

definition BNGetDataBufferSlice :: "ptr \<Rightarrow> nat \<Rightarrow> nat \<Rightarrow> core \<Rightarrow> fault + (ptr \<times> core)" where
  "BNGetDataBufferSlice p start len c =
     (case buffer_at p c of
        Inl e \<Rightarrow> Inl e
      | Inr (h, bs) \<Rightarrow> Inr (BNCreateDataBuffer (take len (drop start bs)) c))"

subsection \<open>The member functions\<close>

record DataBuffer =
  m_buffer :: ptr

text \<open>\<^verbatim>\<open>DataBuffer::DataBuffer() { m_buffer = BNCreateDataBuffer(nullptr, 0); }\<close>\<close>

definition DataBuffer_default :: "core \<Rightarrow> DataBuffer \<times> core" where
  "DataBuffer_default c = (case BNCreateDataBuffer [] c of (h, c1) \<Rightarrow> (\<lparr>m_buffer = h\<rparr>, c1))"

text \<open>
  \<^verbatim>\<open>DataBuffer::DataBuffer(size_t len) { m_buffer = BNCreateDataBuffer(nullptr, len); }\<close>
  The \<^verbatim>\<open>len\<close> bytes that the core allocates without data to copy are taken to be zero.
\<close>

definition DataBuffer_len :: "nat \<Rightarrow> core \<Rightarrow> DataBuffer \<times> core" where
  "DataBuffer_len len c =
     (case BNCreateDataBuffer (replicate len 0) c of (h, c1) \<Rightarrow> (\<lparr>m_buffer = h\<rparr>, c1))"

text \<open>
  \<^verbatim>\<open>DataBuffer::DataBuffer(const void* data, size_t len)\<close>: the argument of the model is
  the \<^verbatim>\<open>len\<close> bytes at \<^verbatim>\<open>data\<close>.
\<close>

definition DataBuffer_data :: "byte list \<Rightarrow> core \<Rightarrow> DataBuffer \<times> core" where
  "DataBuffer_data data c =
     (case BNCreateDataBuffer data c of (h, c1) \<Rightarrow> (\<lparr>m_buffer = h\<rparr>, c1))"

text \<open>
  \<^verbatim>\<open>DataBuffer::DataBuffer(const DataBuffer& buf)
  { m_buffer = BNDuplicateDataBuffer(buf.m_buffer); }\<close>
\<close>

definition DataBuffer_copy :: "DataBuffer \<Rightarrow> core \<Rightarrow> fault + (DataBuffer \<times> core)" where
  "DataBuffer_copy buf c =
     (case BNDuplicateDataBuffer (m_buffer buf) c of
        Inl e \<Rightarrow> Inl e
      | Inr (h, c1) \<Rightarrow> Inr (\<lparr>m_buffer = h\<rparr>, c1))"

text \<open>\<^verbatim>\<open>DataBuffer::DataBuffer(BNDataBuffer* buf) { m_buffer = buf; }\<close>\<close>

definition DataBuffer_handle :: "ptr \<Rightarrow> DataBuffer" where
  "DataBuffer_handle buf = \<lparr>m_buffer = buf\<rparr>"

text \<open>\<^verbatim>\<open>DataBuffer::~DataBuffer() { BNFreeDataBuffer(m_buffer); }\<close>\<close>

definition DataBuffer_dtor :: "DataBuffer \<Rightarrow> core \<Rightarrow> fault + core" where
  "DataBuffer_dtor this c = BNFreeDataBuffer (m_buffer this) c"

text \<open>
  \<^verbatim>\<open>DataBuffer& DataBuffer::operator=(const DataBuffer& buf)
  { BNFreeDataBuffer(m_buffer); m_buffer = BNDuplicateDataBuffer(buf.m_buffer);
    return *this; }\<close>
  The body frees first and reads \<^verbatim>\<open>buf.m_buffer\<close> afterwards, before \<^verbatim>\<open>m_buffer\<close> is
  written; when \<^verbatim>\<open>buf\<close> is \<^verbatim>\<open>*this\<close> the two handles are the same value.
\<close>

definition DataBuffer_assign :: "DataBuffer \<Rightarrow> DataBuffer \<Rightarrow> core \<Rightarrow> fault + (DataBuffer \<times> core)" where
  "DataBuffer_assign this buf c =
     (case BNFreeDataBuffer (m_buffer this) c of
        Inl e \<Rightarrow> Inl e
      | Inr c1 \<Rightarrow>
          (case BNDuplicateDataBuffer (m_buffer buf) c1 of
             Inl e \<Rightarrow> Inl e
           | Inr (h, c2) \<Rightarrow> Inr (this\<lparr>m_buffer := h\<rparr>, c2)))"

text \<open>
  \<^verbatim>\<open>GetData\<close> returns the pointer \<^verbatim>\<open>BNGetDataBufferContents(m_buffer)\<close>; the model
  returns the bytes it points to. \<^verbatim>\<open>GetLength\<close> returns
  \<^verbatim>\<open>BNGetDataBufferLength(m_buffer)\<close>.
\<close>

definition GetData :: "DataBuffer \<Rightarrow> core \<Rightarrow> fault + byte list" where
  "GetData this c = BNGetDataBufferContents (m_buffer this) c"

definition GetLength :: "DataBuffer \<Rightarrow> core \<Rightarrow> fault + nat" where
  "GetLength this c = BNGetDataBufferLength (m_buffer this) c"

text \<open>
  \<^verbatim>\<open>SetSize\<close>, \<^verbatim>\<open>Clear\<close>, the two \<^verbatim>\<open>Append\<close> overloads and \<^verbatim>\<open>AppendByte\<close>, which is
  \<^verbatim>\<open>Append(&val, 1)\<close>.
\<close>

definition SetSize :: "DataBuffer \<Rightarrow> nat \<Rightarrow> core \<Rightarrow> fault + core" where
  "SetSize this len c = BNSetDataBufferLength (m_buffer this) len c"

definition Clear :: "DataBuffer \<Rightarrow> core \<Rightarrow> fault + core" where
  "Clear this c = BNClearDataBuffer (m_buffer this) c"

definition Append :: "DataBuffer \<Rightarrow> byte list \<Rightarrow> core \<Rightarrow> fault + core" where
  "Append this data c = BNAppendDataBufferContents (m_buffer this) data c"

definition Append_buffer :: "DataBuffer \<Rightarrow> DataBuffer \<Rightarrow> core \<Rightarrow> fault + core" where
  "Append_buffer this buf c = BNAppendDataBuffer (m_buffer this) (m_buffer buf) c"

definition AppendByte :: "DataBuffer \<Rightarrow> byte \<Rightarrow> core \<Rightarrow> fault + core" where
  "AppendByte this val c = Append this [val] c"

text \<open>
  \<^verbatim>\<open>DataBuffer DataBuffer::GetSlice(size_t start, size_t len)\<close> wraps the handle that
  \<^verbatim>\<open>BNGetDataBufferSlice\<close> returns.
\<close>

definition GetSlice :: "DataBuffer \<Rightarrow> nat \<Rightarrow> nat \<Rightarrow> core \<Rightarrow> fault + (DataBuffer \<times> core)" where
  "GetSlice this start len c =
     (case BNGetDataBufferSlice (m_buffer this) start len c of
        Inl e \<Rightarrow> Inl e
      | Inr (h, c1) \<Rightarrow> Inr (DataBuffer_handle h, c1))"

text \<open>
  \<^verbatim>\<open>uint8_t& operator[](size_t offset) { return ((uint8_t*)GetData())[offset]; }\<close>
  The reference is read (\<open>operator_index\<close>) or written (\<open>operator_index_write\<close>); an
  offset outside the buffer is an access outside the allocation.
\<close>

definition operator_index :: "DataBuffer \<Rightarrow> nat \<Rightarrow> core \<Rightarrow> fault + byte" where
  "operator_index this offset c =
     (case buffer_at (m_buffer this) c of
        Inl e \<Rightarrow> Inl e
      | Inr (h, bs) \<Rightarrow> if offset < length bs then Inr (bs ! offset) else Inl OutOfBounds)"

definition operator_index_write :: "DataBuffer \<Rightarrow> nat \<Rightarrow> byte \<Rightarrow> core \<Rightarrow> fault + core" where
  "operator_index_write this offset val c =
     (case buffer_at (m_buffer this) c of
        Inl e \<Rightarrow> Inl e
      | Inr (h, bs) \<Rightarrow>
          if offset < length bs
          then Inr (c\<lparr>buffers := (buffers c)[h := Some (bs[offset := val])]\<rparr>)
          else Inl OutOfBounds)"

text \<open>The operations of claim C6 that change a buffer, as one type.\<close>

datatype mutation =
    MSetSize nat
  | MClear
  | MAppend "byte list"
  | MAppendBuffer DataBuffer
  | MAppendByte byte
  | MIndexWrite nat byte

definition mutate :: "mutation \<Rightarrow> DataBuffer \<Rightarrow> core \<Rightarrow> fault + core" where
  "mutate mu this c =
     (case mu of
        MSetSize len \<Rightarrow> SetSize this len c
      | MClear \<Rightarrow> Clear this c
      | MAppend data \<Rightarrow> Append this data c
      | MAppendBuffer buf \<Rightarrow> Append_buffer this buf c
      | MAppendByte val \<Rightarrow> AppendByte this val c
      | MIndexWrite offset val \<Rightarrow> operator_index_write this offset val c)"

section \<open>\<^verbatim>\<open>BinaryReader\<close> and \<^verbatim>\<open>BinaryWriter\<close>\<close>

text \<open>
  The header declares both classes and defines, with their bodies, only the two exception
  classes and the default argument \<^verbatim>\<open>BNEndianness endian = LittleEndian\<close> of the two
  constructors. \<^verbatim>\<open>BNEndianness\<close> is an enumeration of \<^verbatim>\<open>binaryninjacore.h\<close>.
\<close>

datatype BNEndianness = LittleEndian | BigEndian

text \<open>
  \<^verbatim>\<open>class ReadException\<close>: \<^verbatim>\<open>what()\<close> returns \<^verbatim>\<open>"read out of bounds"\<close>;
  \<^verbatim>\<open>class WriteException\<close>: \<^verbatim>\<open>what()\<close> returns \<^verbatim>\<open>"write out of bounds"\<close>.
\<close>

datatype ReadException = ReadException

definition ReadException_what :: "ReadException \<Rightarrow> string" where
  "ReadException_what e = ''read out of bounds''"

datatype WriteException = WriteException

definition WriteException_what :: "WriteException \<Rightarrow> string" where
  "WriteException_what e = ''write out of bounds''"

text \<open>
  Modelled from the spec: the state of a \<^verbatim>\<open>BinaryReader\<close> or \<^verbatim>\<open>BinaryWriter\<close>. The
  header shows the members \<^verbatim>\<open>Ref<BinaryView> m_view\<close> and \<^verbatim>\<open>BNBinaryReader* m_stream\<close>
  (\<^verbatim>\<open>BNBinaryWriter*\<close> for the writer); the object behind \<^verbatim>\<open>m_stream\<close> belongs to the
  core and the member functions are defined in files that are not among the sources. The
  spec describes both classes as sequential cursor wrappers over a \<^verbatim>\<open>BinaryView\<close> that
  delegate bounds-checked reads and writes to the core. The model keeps what that
  sentence names: the bytes of the view, the cursor (a \<^verbatim>\<open>uint64_t\<close>, the type of
  \<^verbatim>\<open>GetOffset\<close>) and the byte order.
\<close>

record stream =
  m_data :: "byte list"
  m_offset :: "64 word"
  m_endian :: BNEndianness

text \<open>
  Modelled from the spec: the constructors
  \<^verbatim>\<open>BinaryReader(BinaryView* data, BNEndianness endian = LittleEndian)\<close> and
  \<^verbatim>\<open>BinaryWriter(BinaryView* data, BNEndianness endian = LittleEndian)\<close>, whose bodies
  are not among the sources. The cursor starts at the beginning of the data.
\<close>

definition stream_ctor :: "byte list \<Rightarrow> BNEndianness \<Rightarrow> stream" where
  "stream_ctor data endian = \<lparr>m_data = data, m_offset = 0, m_endian = endian\<rparr>"

text \<open>
  Modelled from the spec: a constructor call without the second argument; the default
  argument \<^verbatim>\<open>LittleEndian\<close> is the one written in the header.
\<close>

definition stream_ctor_default :: "byte list \<Rightarrow> stream" where
  "stream_ctor_default data = stream_ctor data LittleEndian"

text \<open>
  Modelled from the spec: \<^verbatim>\<open>BNEndianness GetEndianness() const\<close>, declared in the header
  for both classes and defined in files that are not among the sources.
\<close>

definition GetEndianness :: "stream \<Rightarrow> BNEndianness" where
  "GetEndianness s = m_endian s"

text \<open>
  Modelled from the spec: \<^verbatim>\<open>void SetEndianness(BNEndianness endian)\<close>, declared only.
\<close>

definition SetEndianness :: "BNEndianness \<Rightarrow> stream \<Rightarrow> stream" where
  "SetEndianness endian s = s\<lparr>m_endian := endian\<rparr>"

text \<open>Modelled from the spec: \<^verbatim>\<open>uint64_t GetOffset() const\<close>, declared only.\<close>

definition GetOffset :: "stream \<Rightarrow> 64 word" where
  "GetOffset s = m_offset s"

text \<open>Modelled from the spec: \<^verbatim>\<open>void Seek(uint64_t offset)\<close>, declared only.\<close>

definition Seek :: "64 word \<Rightarrow> stream \<Rightarrow> stream" where
  "Seek pos s = s\<lparr>m_offset := pos\<rparr>"

text \<open>
  Modelled from the spec: \<^verbatim>\<open>void SeekRelative(int64_t offset)\<close>, declared only. The
  argument is added to the cursor in two's complement.
\<close>

definition SeekRelative :: "64 word \<Rightarrow> stream \<Rightarrow> stream" where
  "SeekRelative delta s = s\<lparr>m_offset := m_offset s + delta\<rparr>"

text \<open>
  Modelled from the spec: \<^verbatim>\<open>bool IsEndOfFile() const\<close> of \<^verbatim>\<open>BinaryReader\<close>, declared
  only: the cursor is at or past the end of the data.
\<close>

definition IsEndOfFile :: "stream \<Rightarrow> bool" where
  "IsEndOfFile s = (length (m_data s) \<le> unat (m_offset s))"

text \<open>
  Modelled from the spec: the bounds check of the core. A transfer of \<open>len\<close> bytes is in
  bounds when the range of \<open>len\<close> bytes that starts at the cursor lies inside the data of
  the view.
\<close>

definition in_bounds :: "nat \<Rightarrow> stream \<Rightarrow> bool" where
  "in_bounds len s = (unat (m_offset s) + len \<le> length (m_data s))"

text \<open>
  Modelled from the spec: the core's bounds-checked read at the cursor (\<^verbatim>\<open>BNReadData\<close>),
  which belongs to the core library. In bounds it returns the bytes and moves the cursor
  past them; otherwise it does nothing and reports failure.
\<close>

definition BNReadData :: "nat \<Rightarrow> stream \<Rightarrow> (byte list \<times> stream) option" where
  "BNReadData len s =
     (if in_bounds len s
      then Some (take len (drop (unat (m_offset s)) (m_data s)),
                 s\<lparr>m_offset := m_offset s + of_nat len\<rparr>)
      else None)"

text \<open>
  Modelled from the spec: the core's bounds-checked write at the cursor
  (\<^verbatim>\<open>BNWriteData\<close>), which belongs to the core library. In bounds it replaces the bytes
  at the cursor and moves the cursor past them; otherwise it does nothing and reports
  failure.
\<close>

definition BNWriteData :: "byte list \<Rightarrow> stream \<Rightarrow> stream option" where
  "BNWriteData bs s =
     (if in_bounds (length bs) s
      then Some (s\<lparr>m_data := take (unat (m_offset s)) (m_data s) @ bs
                              @ drop (unat (m_offset s) + length bs) (m_data s),
                    m_offset := m_offset s + of_nat (length bs)\<rparr>)
      else None)"

text \<open>
  Modelled from the spec: the number that a byte sequence stands for, least significant
  byte first.
\<close>

fun le_value :: "byte list \<Rightarrow> nat" where
  "le_value [] = 0"
| "le_value (b # bs) = unat b + 256 * le_value bs"

text \<open>
  Modelled from the spec: the \<open>n\<close> bytes of a number, least significant byte first.
\<close>

fun le_bytes :: "nat \<Rightarrow> nat \<Rightarrow> byte list" where
  "le_bytes 0 v = []"
| "le_bytes (Suc n) v = of_nat (v mod 256) # le_bytes n (v div 256)"

text \<open>
  Modelled from the spec: the number that a byte sequence stands for in a byte order.
\<close>

definition int_value :: "BNEndianness \<Rightarrow> byte list \<Rightarrow> nat" where
  "int_value e bs = (case e of LittleEndian \<Rightarrow> le_value bs | BigEndian \<Rightarrow> le_value (rev bs))"

text \<open>Modelled from the spec: the \<open>n\<close> bytes of a number in a byte order.\<close>

definition int_bytes :: "BNEndianness \<Rightarrow> nat \<Rightarrow> nat \<Rightarrow> byte list" where
  "int_bytes e n v = (case e of LittleEndian \<Rightarrow> le_bytes n v | BigEndian \<Rightarrow> rev (le_bytes n v))"

text \<open>
  The read operations that the header declares, and what each returns. \<^verbatim>\<open>Read\<close> stands
  for both overloads \<^verbatim>\<open>Read(void*, size_t)\<close> and \<^verbatim>\<open>Read(size_t)\<close>.
\<close>

datatype read_op =
    Read nat
  | ReadString nat
  | Read8 | Read16 | Read32 | Read64
  | ReadLE16 | ReadLE32 | ReadLE64
  | ReadBE16 | ReadBE32 | ReadBE64

datatype read_result =
    Bytes "byte list"
  | Chars string
  | UInt8 "8 word"
  | UInt16 "16 word"
  | UInt32 "32 word"
  | UInt64 "64 word"

text \<open>
  Modelled from the spec: the number of bytes that each read operation asks the core
  for, which is the \<^verbatim>\<open>len\<close> argument or the width in the name.
\<close>

fun read_size :: "read_op \<Rightarrow> nat" where
  "read_size (Read len) = len"
| "read_size (ReadString len) = len"
| "read_size Read8 = 1"
| "read_size Read16 = 2"
| "read_size Read32 = 4"
| "read_size Read64 = 8"
| "read_size ReadLE16 = 2"
| "read_size ReadLE32 = 4"
| "read_size ReadLE64 = 8"
| "read_size ReadBE16 = 2"
| "read_size ReadBE32 = 4"
| "read_size ReadBE64 = 8"

text \<open>
  Modelled from the spec: how the bytes read become the result. The operations without
  \<^verbatim>\<open>LE\<close> or \<^verbatim>\<open>BE\<close> in their name use the byte order of the stream.
\<close>

fun decode :: "read_op \<Rightarrow> BNEndianness \<Rightarrow> byte list \<Rightarrow> read_result" where
  "decode (Read len) e bs = Bytes bs"
| "decode (ReadString len) e bs = Chars (map (\<lambda>b. char_of (unat b)) bs)"
| "decode Read8 e bs = UInt8 (of_nat (int_value e bs))"
| "decode Read16 e bs = UInt16 (of_nat (int_value e bs))"
| "decode Read32 e bs = UInt32 (of_nat (int_value e bs))"
| "decode Read64 e bs = UInt64 (of_nat (int_value e bs))"
| "decode ReadLE16 e bs = UInt16 (of_nat (int_value LittleEndian bs))"
| "decode ReadLE32 e bs = UInt32 (of_nat (int_value LittleEndian bs))"
| "decode ReadLE64 e bs = UInt64 (of_nat (int_value LittleEndian bs))"
| "decode ReadBE16 e bs = UInt16 (of_nat (int_value BigEndian bs))"
| "decode ReadBE32 e bs = UInt32 (of_nat (int_value BigEndian bs))"
| "decode ReadBE64 e bs = UInt64 (of_nat (int_value BigEndian bs))"

text \<open>
  Modelled from the spec: the core function behind a read operation (\<^verbatim>\<open>BNReadData\<close>,
  \<^verbatim>\<open>BNRead8\<close>, \<^verbatim>\<open>BNReadLE16\<close> and so on): a bounds-checked read of the bytes, which
  are then decoded.
\<close>

definition core_read :: "read_op \<Rightarrow> stream \<Rightarrow> (read_result \<times> stream) option" where
  "core_read c s =
     (case BNReadData (read_size c) s of
        None \<Rightarrow> None
      | Some (bs, s1) \<Rightarrow> Some (decode c (m_endian s) bs, s1))"

text \<open>
  Modelled from the spec: the throwing member functions of \<^verbatim>\<open>BinaryReader\<close> (\<^verbatim>\<open>Read\<close>,
  \<^verbatim>\<open>ReadString\<close>, \<^verbatim>\<open>Read8\<close> and so on), declared in the header and defined in a file
  that is not among the sources. \<open>BinaryReader_read c\<close> is the function named by \<open>c\<close>: it
  delegates to the core and throws \<^verbatim>\<open>ReadException\<close> when the core reports failure.
\<close>

definition BinaryReader_read :: "read_op \<Rightarrow> stream \<Rightarrow> ReadException + (read_result \<times> stream)" where
  "BinaryReader_read c s =
     (case core_read c s of None \<Rightarrow> Inl ReadException | Some r \<Rightarrow> Inr r)"

text \<open>
  Modelled from the spec: the \<^verbatim>\<open>TryRead\<close> member functions of \<^verbatim>\<open>BinaryReader\<close>, declared
  only. \<open>BinaryReader_try c\<close> is the \<^verbatim>\<open>Try\<close> variant of the function named by \<open>c\<close>: it
  delegates to the core, returns what the core reports and leaves its output argument
  \<open>dest\<close> as it was when the read fails.
\<close>

definition BinaryReader_try :: "read_op \<Rightarrow> read_result \<Rightarrow> stream \<Rightarrow> bool \<times> read_result \<times> stream" where
  "BinaryReader_try c dest s =
     (case core_read c s of None \<Rightarrow> (False, dest, s) | Some (r, s1) \<Rightarrow> (True, r, s1))"

text \<open>
  The write operations that the header declares. \<^verbatim>\<open>Write\<close> stands for the overloads
  \<^verbatim>\<open>Write(const void*, size_t)\<close> and \<^verbatim>\<open>Write(const DataBuffer&)\<close>, \<^verbatim>\<open>WriteString\<close> for
  \<^verbatim>\<open>Write(const std::string&)\<close>.
\<close>

datatype write_op =
    Write "byte list"
  | WriteString string
  | Write8 "8 word" | Write16 "16 word" | Write32 "32 word" | Write64 "64 word"
  | WriteLE16 "16 word" | WriteLE32 "32 word" | WriteLE64 "64 word"
  | WriteBE16 "16 word" | WriteBE32 "32 word" | WriteBE64 "64 word"

text \<open>Modelled from the spec: the bytes that each write operation sends to the core.\<close>

fun encode :: "write_op \<Rightarrow> BNEndianness \<Rightarrow> byte list" where
  "encode (Write bs) e = bs"
| "encode (WriteString str) e = map (\<lambda>ch. of_char ch) str"
| "encode (Write8 v) e = int_bytes e 1 (unat v)"
| "encode (Write16 v) e = int_bytes e 2 (unat v)"
| "encode (Write32 v) e = int_bytes e 4 (unat v)"
| "encode (Write64 v) e = int_bytes e 8 (unat v)"
| "encode (WriteLE16 v) e = int_bytes LittleEndian 2 (unat v)"
| "encode (WriteLE32 v) e = int_bytes LittleEndian 4 (unat v)"
| "encode (WriteLE64 v) e = int_bytes LittleEndian 8 (unat v)"
| "encode (WriteBE16 v) e = int_bytes BigEndian 2 (unat v)"
| "encode (WriteBE32 v) e = int_bytes BigEndian 4 (unat v)"
| "encode (WriteBE64 v) e = int_bytes BigEndian 8 (unat v)"

text \<open>
  Modelled from the spec: the number of bytes that a write operation sends, which does
  not depend on the byte order.
\<close>

definition write_size :: "write_op \<Rightarrow> nat" where
  "write_size c = length (encode c LittleEndian)"

text \<open>
  Modelled from the spec: the core function behind a write operation (\<^verbatim>\<open>BNWriteData\<close>,
  \<^verbatim>\<open>BNWrite8\<close>, \<^verbatim>\<open>BNWriteLE16\<close> and so on): a bounds-checked write of the encoded
  bytes.
\<close>

definition core_write :: "write_op \<Rightarrow> stream \<Rightarrow> stream option" where
  "core_write c s = BNWriteData (encode c (m_endian s)) s"

text \<open>
  Modelled from the spec: the throwing member functions of \<^verbatim>\<open>BinaryWriter\<close> (\<^verbatim>\<open>Write\<close>,
  \<^verbatim>\<open>Write8\<close> and so on), declared in the header and defined in a file that is not among
  the sources. \<open>BinaryWriter_write c\<close> is the function named by \<open>c\<close>: it delegates to the
  core and throws \<^verbatim>\<open>WriteException\<close> when the core reports failure.
\<close>

definition BinaryWriter_write :: "write_op \<Rightarrow> stream \<Rightarrow> WriteException + stream" where
  "BinaryWriter_write c s =
     (case core_write c s of None \<Rightarrow> Inl WriteException | Some s1 \<Rightarrow> Inr s1)"

text \<open>
  Modelled from the spec: the \<^verbatim>\<open>TryWrite\<close> member functions of \<^verbatim>\<open>BinaryWriter\<close>,
  declared only: they delegate to the core and return what the core reports.
\<close>

definition BinaryWriter_try :: "write_op \<Rightarrow> stream \<Rightarrow> bool \<times> stream" where
  "BinaryWriter_try c s =
     (case core_write c s of None \<Rightarrow> (False, s) | Some s1 \<Rightarrow> (True, s1))"

section \<open>Auxiliary notions for the proofs\<close>

text \<open>
  \<open>counted objs c\<close>: every live object's counter is \<open>c\<close> taken modulo \<open>2 ^ 32\<close>, with
  \<open>c\<close> itself below \<open>2 ^ 32\<close>, and \<open>c\<close> is zero on deleted objects. It is the form of
  the invariant that also holds between the \<^verbatim>\<open>AddRef\<close> and the \<^verbatim>\<open>Release\<close> of an
  assignment.
\<close>

definition counted :: "RefCountObject option list \<Rightarrow> (addr \<Rightarrow> nat) \<Rightarrow> bool" where
  "counted objs c \<longleftrightarrow>
     (\<forall>a < length objs.
        case objs ! a of
          Some ob \<Rightarrow> m_refs ob = of_nat (c a) \<and> c a < 2 ^ 32
        | None \<Rightarrow> c a = 0)"

text \<open>
  A handle whose own reference is counted: it is null, or it wraps a live object whose
  counter is not zero.
\<close>

definition counted_ref :: "Ref \<Rightarrow> memory \<Rightarrow> bool" where
  "counted_ref r m =
     (case m_obj r of
        None \<Rightarrow> True
      | Some a \<Rightarrow> (case object_at m a of None \<Rightarrow> False | Some ob \<Rightarrow> m_refs ob \<noteq> 0))"

text \<open>The calls a self-assignment makes, in order.\<close>

definition self_assign_calls :: "Ref \<Rightarrow> call list" where
  "self_assign_calls r = (case m_obj r of None \<Rightarrow> [] | Some a \<Rightarrow> [CallAddRef a, CallRelease a])"

text \<open>
  The state reached from the empty program by \<^verbatim>\<open>new T\<close> followed by \<open>n\<close> constructions
  \<^verbatim>\<open>Ref<T>(p)\<close> on the new object: one object, \<open>n\<close> live handles on it.
\<close>

definition many_handles :: "nat \<Rightarrow> state" where
  "many_handles n =
     \<lparr>mem = \<lparr>objects = [Some \<lparr>m_refs = of_nat n\<rparr>], calls = replicate n (CallAddRef 0)\<rparr>,
      handles = replicate n (Some \<lparr>m_obj = Some 0\<rparr>)\<rparr>"

section \<open>Basic facts\<close>

lemma deref_live:
  "object_at m a = Some ob \<Longrightarrow> deref (Some a) m = Inr (a, ob)"
  by (auto simp: deref_def object_at_def split: if_splits)

lemma deref_log_call [simp]: "deref p (log_call c m) = deref p m"
  by (simp add: deref_def log_call_def split: option.split)

lemma object_at_log_call [simp]: "object_at (log_call c m) a = object_at m a"
  by (simp add: object_at_def log_call_def)

lemma object_at_store_refs:
  "object_at (store_refs a ob n m) b =
     (if b = a \<and> a < length (objects m) then Some (ob\<lparr>m_refs := n\<rparr>) else object_at m b)"
  by (auto simp: object_at_def store_refs_def)

lemma delete_this_RefCountObject_dtor:
  "delete_this RefCountObject_dtor a m = Inr (m\<lparr>objects := (objects m)[a := None]\<rparr>)"
  by (simp add: delete_this_def RefCountObject_dtor_def)

lemma object_at_delete_this:
  "delete_this dtor a m = Inr m1 \<Longrightarrow> object_at m1 a = None"
  by (auto simp: object_at_def delete_this_def split: sum.splits)

lemma word_minus_one_eq_0_iff: "(w :: 32 word) - 1 = 0 \<longleftrightarrow> w = 1"
  by (metis diff_add_cancel diff_self)

lemma Release_WIN32_eq: "Release_WIN32 dtor p m = Release dtor p m"
  by (simp add: Release_WIN32_def Release_def Let_def word_minus_one_eq_0_iff
           split: sum.splits prod.splits)

lemma objects_log_call [simp]: "objects (log_call c m) = objects m"
  by (simp add: log_call_def)

lemma AddRef_live:
  assumes "object_at m a = Some ob"
  shows "AddRef (Some a) m = Inr (store_refs a ob (m_refs ob + 1) (log_call (CallAddRef a) m))"
  by (simp add: AddRef_def deref_live [OF assms])

lemma Release_live:
  assumes "object_at m a = Some ob"
  shows "Release dtor (Some a) m =
           (if m_refs ob = 1
            then delete_this dtor a (store_refs a ob (m_refs ob - 1) (log_call (CallRelease a) m))
            else Inr (store_refs a ob (m_refs ob - 1) (log_call (CallRelease a) m)))"
  by (simp add: Release_def deref_live [OF assms] Let_def)

lemma sint_succ:
  "sint (w :: 32 word) \<noteq> 2147483647 \<Longrightarrow> sint (w + 1) = sint w + 1"
proof -
  assume h: "sint w \<noteq> 2147483647"
  have "sint w < 2 ^ (LENGTH(32) - 1)" by (rule sint_lt)
  moreover have "- (2 ^ (LENGTH(32) - 1)) \<le> sint w" by (rule sint_ge)
  ultimately have r: "- (2 ^ 31) \<le> sint w + 1" "sint w + 1 < 2 ^ 31" using h by simp_all
  have "sint (w + 1) = signed_take_bit (LENGTH(32) - 1) (sint w + sint (1 :: 32 word))"
    by (rule sint_word_add)
  also have "\<dots> = signed_take_bit 31 (sint w + 1)" by simp
  also have "\<dots> = sint w + 1" using r by (intro signed_take_bit_int_eq_self) simp_all
  finally show ?thesis .
qed

lemma sint_pred:
  "sint (w :: 32 word) \<noteq> - 2147483648 \<Longrightarrow> sint (w - 1) = sint w - 1"
proof -
  assume h: "sint w \<noteq> - 2147483648"
  have "sint w < 2 ^ (LENGTH(32) - 1)" by (rule sint_lt)
  moreover have "- (2 ^ (LENGTH(32) - 1)) \<le> sint w" by (rule sint_ge)
  ultimately have r: "- (2 ^ 31) \<le> sint w - 1" "sint w - 1 < 2 ^ 31" using h by simp_all
  have "sint (w - 1) = signed_take_bit (LENGTH(32) - 1) (sint w - sint (1 :: 32 word))"
    by (rule sint_word_diff)
  also have "\<dots> = signed_take_bit 31 (sint w - 1)" by simp
  also have "\<dots> = sint w - 1" using r by (intro signed_take_bit_int_eq_self) simp_all
  finally show ?thesis .
qed

section \<open>\<^verbatim>\<open>AddRef\<close> and \<^verbatim>\<open>Release\<close>\<close>

text \<open>
  Claim C2. For a live \<^verbatim>\<open>RefCountObject\<close>, \<^verbatim>\<open>AddRef\<close> adds exactly one to \<^verbatim>\<open>m_refs\<close>,
  leaves the object alive and touches no other object. \<^verbatim>\<open>Release\<close> subtracts exactly
  one. If the count before the call was not 1, that is all it does: it returns with the
  object alive, and no destructor has run. If the count before the call was 1, it goes on
  to \<^verbatim>\<open>delete this\<close> on the object with its decremented count: the destructor of the
  object runs, whatever it is and whatever it does to other objects, and once it has
  returned the object is deleted; with the destructor of \<^verbatim>\<open>RefCountObject\<close> itself,
  \<^verbatim>\<open>Release\<close> always returns. The count before the call being 1 is the same as the
  decremented count being zero (the test of the \<^verbatim>\<open>WIN32\<close> branch, which therefore
  behaves as the other branch). A newly constructed object has \<^verbatim>\<open>m_refs\<close> equal to 0.
  The addition and the subtraction are those of the 32-bit field; read as signed integers
  they are plus one and minus one everywhere except at the two ends of the range of
  \<^verbatim>\<open>int\<close>, where the atomic builtins wrap around.
\<close>

theorem AddRef_Release_count:
  assumes live: "object_at m a = Some ob"
  shows "(\<exists>m1. AddRef (Some a) m = Inr m1
            \<and> object_at m1 a = Some (ob\<lparr>m_refs := m_refs ob + 1\<rparr>)
            \<and> (\<forall>b. b \<noteq> a \<longrightarrow> object_at m1 b = object_at m b))
       \<and> (\<exists>m1. objects m1 = (objects m)[a := Some (ob\<lparr>m_refs := m_refs ob - 1\<rparr>)]
            \<and> calls m1 = calls m @ [CallRelease a]
            \<and> object_at m1 a = Some (ob\<lparr>m_refs := m_refs ob - 1\<rparr>)
            \<and> Release dtor (Some a) m = (if m_refs ob = 1 then delete_this dtor a m1 else Inr m1))
       \<and> (\<forall>m1 m2. delete_this dtor a m1 = Inr m2 \<longrightarrow> object_at m2 a = None)
       \<and> (\<exists>m2. Release RefCountObject_dtor (Some a) m = Inr m2
            \<and> object_at m2 a = (if m_refs ob = 1 then None else Some (ob\<lparr>m_refs := m_refs ob - 1\<rparr>)))
       \<and> (m_refs ob = 1 \<longleftrightarrow> m_refs ob - 1 = 0)
       \<and> Release_WIN32 dtor (Some a) m = Release dtor (Some a) m
       \<and> (sint (m_refs ob) \<noteq> 2147483647 \<longrightarrow> sint (m_refs ob + 1) = sint (m_refs ob) + 1)
       \<and> (sint (m_refs ob) \<noteq> - 2147483648 \<longrightarrow> sint (m_refs ob - 1) = sint (m_refs ob) - 1)
       \<and> m_refs RefCountObject_ctor = 0
       \<and> object_at (snd (new_object m)) (fst (new_object m)) = Some RefCountObject_ctor"
proof -
  from live have a: "a < length (objects m)" by (auto simp: object_at_def split: if_splits)
  let ?m1 = "store_refs a ob (m_refs ob - 1) (log_call (CallRelease a) m)"
  have 1: "\<exists>m1. AddRef (Some a) m = Inr m1
            \<and> object_at m1 a = Some (ob\<lparr>m_refs := m_refs ob + 1\<rparr>)
            \<and> (\<forall>b. b \<noteq> a \<longrightarrow> object_at m1 b = object_at m b)"
    using a by (simp add: AddRef_live [OF live] object_at_store_refs)
  have "objects ?m1 = (objects m)[a := Some (ob\<lparr>m_refs := m_refs ob - 1\<rparr>)]"
    and "calls ?m1 = calls m @ [CallRelease a]"
    and "object_at ?m1 a = Some (ob\<lparr>m_refs := m_refs ob - 1\<rparr>)"
    using a by (simp_all add: object_at_store_refs) (simp_all add: store_refs_def log_call_def)
  moreover have "Release dtor (Some a) m
                   = (if m_refs ob = 1 then delete_this dtor a ?m1 else Inr ?m1)"
    by (rule Release_live [OF live])
  ultimately have 2: "\<exists>m1. objects m1 = (objects m)[a := Some (ob\<lparr>m_refs := m_refs ob - 1\<rparr>)]
            \<and> calls m1 = calls m @ [CallRelease a]
            \<and> object_at m1 a = Some (ob\<lparr>m_refs := m_refs ob - 1\<rparr>)
            \<and> Release dtor (Some a) m = (if m_refs ob = 1 then delete_this dtor a m1 else Inr m1)"
    by blast
  have 3: "\<forall>m1 m2. delete_this dtor a m1 = Inr m2 \<longrightarrow> object_at m2 a = None"
    by (simp add: object_at_delete_this)
  have 4: "\<exists>m2. Release RefCountObject_dtor (Some a) m = Inr m2
            \<and> object_at m2 a = (if m_refs ob = 1 then None else Some (ob\<lparr>m_refs := m_refs ob - 1\<rparr>))"
    using a
    by (simp add: Release_live [OF live] delete_this_RefCountObject_dtor object_at_store_refs)
       (simp add: object_at_def)
  have 5: "m_refs ob = 1 \<longleftrightarrow> m_refs ob - 1 = 0"
    by (simp add: word_minus_one_eq_0_iff)
  have 6: "Release_WIN32 dtor (Some a) m = Release dtor (Some a) m" by (rule Release_WIN32_eq)
  have 7: "m_refs RefCountObject_ctor = 0" by (simp add: RefCountObject_ctor_def)
  have 8: "object_at (snd (new_object m)) (fst (new_object m)) = Some RefCountObject_ctor"
    by (simp add: new_object_def object_at_def)
  have 9: "sint (m_refs ob) \<noteq> 2147483647 \<longrightarrow> sint (m_refs ob + 1) = sint (m_refs ob) + 1"
    by (simp add: sint_succ)
  have 10: "sint (m_refs ob) \<noteq> - 2147483648 \<longrightarrow> sint (m_refs ob - 1) = sint (m_refs ob) - 1"
    by (simp add: sint_pred)
  from 1 2 3 4 5 6 7 8 9 10 show ?thesis by (intro conjI)
qed

text \<open>
  Two objects with one reference each. With the destructor of \<^verbatim>\<open>RefCountObject\<close>,
  releasing the object at 0 deletes it and leaves the object at 1 alone. When the object
  at 0 is of a class with a \<^verbatim>\<open>Ref\<close> member that wraps the object at 1, the destructor
  of the class runs \<^verbatim>\<open>~Ref\<close> on the member: releasing the object at 0 then deletes both
  objects, the second one from the destructor of the first.
\<close>

theorem AddRef_Release_count_witness:
  "object_at \<lparr>objects = [Some \<lparr>m_refs = 1\<rparr>, Some \<lparr>m_refs = 1\<rparr>], calls = []\<rparr> 0 = Some \<lparr>m_refs = 1\<rparr>
   \<and> AddRef (Some 0) \<lparr>objects = [Some \<lparr>m_refs = 1\<rparr>, Some \<lparr>m_refs = 1\<rparr>], calls = []\<rparr>
       = Inr \<lparr>objects = [Some \<lparr>m_refs = 2\<rparr>, Some \<lparr>m_refs = 1\<rparr>], calls = [CallAddRef 0]\<rparr>
   \<and> Release RefCountObject_dtor (Some 0)
         \<lparr>objects = [Some \<lparr>m_refs = 1\<rparr>, Some \<lparr>m_refs = 1\<rparr>], calls = []\<rparr>
       = Inr \<lparr>objects = [None, Some \<lparr>m_refs = 1\<rparr>], calls = [CallRelease 0]\<rparr>
   \<and> Release (\<lambda>a. Ref_dtor RefCountObject_dtor \<lparr>m_obj = Some (Suc a)\<rparr>) (Some 0)
         \<lparr>objects = [Some \<lparr>m_refs = 1\<rparr>, Some \<lparr>m_refs = 1\<rparr>], calls = []\<rparr>
       = Inr \<lparr>objects = [None, None], calls = [CallRelease 0, CallRelease 1]\<rparr>
   \<and> Release_WIN32 (\<lambda>a. Ref_dtor RefCountObject_dtor \<lparr>m_obj = Some (Suc a)\<rparr>) (Some 0)
         \<lparr>objects = [Some \<lparr>m_refs = 1\<rparr>, Some \<lparr>m_refs = 1\<rparr>], calls = []\<rparr>
       = Inr \<lparr>objects = [None, None], calls = [CallRelease 0, CallRelease 1]\<rparr>"
proof -
  let ?m = "\<lparr>objects = [Some \<lparr>m_refs = 1\<rparr>, Some \<lparr>m_refs = 1\<rparr>], calls = []\<rparr>"
  let ?dtor = "\<lambda>a. Ref_dtor RefCountObject_dtor \<lparr>m_obj = Some (Suc a)\<rparr>"
  have h: "object_at ?m 0 = Some \<lparr>m_refs = 1\<rparr>" by (simp add: object_at_def)
  have a: "AddRef (Some 0) ?m
             = Inr \<lparr>objects = [Some \<lparr>m_refs = 2\<rparr>, Some \<lparr>m_refs = 1\<rparr>], calls = [CallAddRef 0]\<rparr>"
    by (simp add: AddRef_def deref_def store_refs_def log_call_def)
  have r0: "Release RefCountObject_dtor (Some 0) ?m
              = Inr \<lparr>objects = [None, Some \<lparr>m_refs = 1\<rparr>], calls = [CallRelease 0]\<rparr>"
    by (simp add: Release_def deref_def store_refs_def log_call_def
          delete_this_RefCountObject_dtor)
  have r: "Release ?dtor (Some 0) ?m
             = Inr \<lparr>objects = [None, None], calls = [CallRelease 0, CallRelease 1]\<rparr>"
    by (simp add: Release_def deref_def store_refs_def log_call_def delete_this_def
          Ref_dtor_def RefCountObject_dtor_def)
  from AddRef_Release_count [OF h, of ?dtor]
  have "Release_WIN32 ?dtor (Some 0) ?m = Release ?dtor (Some 0) ?m"
    by (elim conjE)
  with h a r0 r show ?thesis by simp
qed

section \<open>The reference-counting invariant\<close>

lemma sint_eq_int_iff:
  "sint (w::32 word) = int n \<longleftrightarrow> w = of_nat n \<and> n \<le> INT_MAX"
proof
  assume h: "sint w = int n"
  have "w = word_of_int (sint w)" by simp
  also have "\<dots> = of_nat n" using h by simp
  finally have 1: "w = of_nat n" .
  have "sint w < 2 ^ (LENGTH(32) - 1)" by (rule sint_lt)
  then have "n \<le> INT_MAX" using h by (simp add: INT_MAX_def)
  with 1 show "w = of_nat n \<and> n \<le> INT_MAX" by simp
next
  assume h: "w = of_nat n \<and> n \<le> INT_MAX"
  have "sint (word_of_int (int n) :: 32 word) = signed_take_bit (LENGTH(32) - 1) (int n)"
    by (rule sint_sbintrunc')
  also have "\<dots> = int n"
    using h by (intro signed_take_bit_int_eq_self) (simp_all add: INT_MAX_def)
  finally show "sint w = int n" using h by simp
qed

lemma of_nat_eq_1_iff:
  assumes "n < 2 ^ 32"
  shows "(of_nat n :: 32 word) = 1 \<longleftrightarrow> n = 1"
proof
  assume "(of_nat n :: 32 word) = 1"
  then have "unat (of_nat n :: 32 word) = 1" by simp
  then show "n = 1" using assms by (simp add: unat_of_nat)
qed simp

lemma of_nat_pred: "0 < n \<Longrightarrow> (of_nat n :: 32 word) - 1 = of_nat (n - 1)"
  by (cases n) simp_all

lemma AddRef_counted:
  assumes c: "counted (objects m) c"
    and live: "object_at m a \<noteq> None"
    and bound: "c a + 1 < 2 ^ 32"
  shows "\<exists>m1. AddRef (Some a) m = Inr m1
           \<and> length (objects m1) = length (objects m)
           \<and> calls m1 = calls m @ [CallAddRef a]
           \<and> counted (objects m1) (c(a := c a + 1))
           \<and> object_at m1 a \<noteq> None"
proof -
  from live obtain ob where ob: "object_at m a = Some ob" by auto
  then have a: "a < length (objects m)" and nth: "objects m ! a = Some ob"
    by (auto simp: object_at_def split: if_splits)
  have refs: "m_refs ob = of_nat (c a)"
    using c a nth by (auto simp: counted_def)
  let ?m1 = "store_refs a ob (m_refs ob + 1) (log_call (CallAddRef a) m)"
  have 1: "AddRef (Some a) m = Inr ?m1"
    by (simp add: AddRef_def deref_live [OF ob])
  have 2: "length (objects ?m1) = length (objects m)"
    by (simp add: store_refs_def log_call_def)
  have 3: "calls ?m1 = calls m @ [CallAddRef a]"
    by (simp add: store_refs_def log_call_def)
  have 4: "counted (objects ?m1) (c(a := c a + 1))"
    unfolding counted_def
  proof (intro allI impI)
    fix b assume b: "b < length (objects ?m1)"
    show "case objects ?m1 ! b of
            Some ob \<Rightarrow> m_refs ob = of_nat ((c(a := c a + 1)) b) \<and> (c(a := c a + 1)) b < 2 ^ 32
          | None \<Rightarrow> (c(a := c a + 1)) b = 0"
    proof (cases "b = a")
      case True
      then show ?thesis
        using a bound refs by (simp add: store_refs_def log_call_def)
    next
      case False
      then show ?thesis
        using c b by (auto simp: store_refs_def log_call_def counted_def split: option.splits)
    qed
  qed
  have 5: "object_at ?m1 a \<noteq> None"
    using a by (simp add: object_at_def store_refs_def log_call_def)
  from 1 2 3 4 5 show ?thesis by blast
qed

lemma Release_counted:
  assumes c: "counted (objects m) c"
    and a: "a < length (objects m)"
    and pos: "0 < c a"
  shows "\<exists>m1. Release RefCountObject_dtor (Some a) m = Inr m1
           \<and> length (objects m1) = length (objects m)
           \<and> calls m1 = calls m @ [CallRelease a]
           \<and> counted (objects m1) (c(a := c a - 1))"
proof -
  from c a pos obtain ob where nth: "objects m ! a = Some ob"
    by (cases "objects m ! a") (auto simp: counted_def)
  then have ob: "object_at m a = Some ob" using a by (simp add: object_at_def)
  have refs: "m_refs ob = of_nat (c a)" and lt: "c a < 2 ^ 32"
    using c a nth by (auto simp: counted_def)
  have one: "m_refs ob = 1 \<longleftrightarrow> c a = 1"
    using refs of_nat_eq_1_iff [OF lt] by simp
  let ?m0 = "store_refs a ob (m_refs ob + (- 1)) (log_call (CallRelease a) m)"
  let ?m1 = "if m_refs ob = 1 then ?m0\<lparr>objects := (objects ?m0)[a := None]\<rparr> else ?m0"
  have 1: "Release RefCountObject_dtor (Some a) m = Inr ?m1"
    by (simp add: Release_def deref_live [OF ob] Let_def delete_this_RefCountObject_dtor)
  have objs: "objects ?m1 =
      (objects m)[a := if c a = 1 then None else Some (ob\<lparr>m_refs := of_nat (c a - 1)\<rparr>)]"
    using one refs of_nat_pred [OF pos]
    by (simp add: store_refs_def log_call_def)
  have 2: "length (objects ?m1) = length (objects m)"
    by (simp add: store_refs_def log_call_def)
  have 3: "calls ?m1 = calls m @ [CallRelease a]"
    by (simp add: store_refs_def log_call_def)
  have 4: "counted (objects ?m1) (c(a := c a - 1))"
    unfolding counted_def objs
  proof (intro allI impI)
    fix b
    let ?objs = "(objects m)[a := if c a = 1 then None else Some (ob\<lparr>m_refs := of_nat (c a - 1)\<rparr>)]"
    assume b: "b < length ?objs"
    show "case ?objs ! b of
            Some ob \<Rightarrow> m_refs ob = of_nat ((c(a := c a - 1)) b) \<and> (c(a := c a - 1)) b < 2 ^ 32
          | None \<Rightarrow> (c(a := c a - 1)) b = 0"
    proof (cases "b = a")
      case True
      then show ?thesis
        using a lt by auto
    next
      case False
      then show ?thesis
        using c b by (auto simp: counted_def split: option.splits)
    qed
  qed
  from 1 2 3 4 show ?thesis by blast
qed

lemma Ref_assign_ptr_counted:
  assumes c: "counted (objects m) c"
    and new: "\<And>a. new = Some a \<Longrightarrow> object_at m a \<noteq> None \<and> c a + 1 < 2 ^ 32"
    and old: "\<And>a. m_obj this = Some a \<Longrightarrow> a < length (objects m) \<and> 0 < c a"
  shows "\<exists>m2. Ref_assign_ptr RefCountObject_dtor this new m = Inr (this\<lparr>m_obj := new\<rparr>, m2)
           \<and> length (objects m2) = length (objects m)
           \<and> counted (objects m2)
                (\<lambda>b. c b + (if new = Some b then 1 else 0) - (if m_obj this = Some b then 1 else 0))"
proof -
  let ?c1 = "\<lambda>b. c b + (if new = Some b then 1 else (0::nat))"
  have step1: "\<exists>m1. (if new \<noteq> None then AddRef new m else Inr m) = Inr m1
                 \<and> length (objects m1) = length (objects m)
                 \<and> counted (objects m1) ?c1"
  proof (cases new)
    case None
    then show ?thesis using c by simp
  next
    case (Some a)
    from AddRef_counted [OF c] new [OF Some]
    obtain m1 where "AddRef (Some a) m = Inr m1"
      and "length (objects m1) = length (objects m)"
      and "counted (objects m1) (c(a := c a + 1))"
      by blast
    moreover have "c(a := c a + 1) = ?c1" using Some by auto
    ultimately show ?thesis using Some by auto
  qed
  then obtain m1 where a1: "(if new \<noteq> None then AddRef new m else Inr m) = Inr m1"
    and l1: "length (objects m1) = length (objects m)"
    and c1: "counted (objects m1) ?c1"
    by blast
  let ?c2 = "\<lambda>b. ?c1 b - (if m_obj this = Some b then 1 else (0::nat))"
  have step2: "\<exists>m2. (if m_obj this \<noteq> None then Release RefCountObject_dtor (m_obj this) m1
                      else Inr m1) = Inr m2
                 \<and> length (objects m2) = length (objects m1)
                 \<and> counted (objects m2) ?c2"
  proof (cases "m_obj this")
    case None
    then show ?thesis using c1 by simp
  next
    case (Some a)
    have "a < length (objects m1)" and "0 < ?c1 a"
      using old [OF Some] l1 by auto
    from Release_counted [OF c1 this]
    obtain m2 where "Release RefCountObject_dtor (Some a) m1 = Inr m2"
      and "length (objects m2) = length (objects m1)"
      and "counted (objects m2) (?c1(a := ?c1 a - 1))"
      by blast
    moreover have "?c1(a := ?c1 a - 1) = ?c2" using Some by auto
    ultimately show ?thesis using Some by auto
  qed
  then obtain m2 where a2: "(if m_obj this \<noteq> None then Release RefCountObject_dtor (m_obj this) m1
                             else Inr m1) = Inr m2"
    and l2: "length (objects m2) = length (objects m1)"
    and c2: "counted (objects m2) ?c2"
    by blast
  have "Ref_assign_ptr RefCountObject_dtor this new m = Inr (this\<lparr>m_obj := new\<rparr>, m2)"
    using a1 a2 by (cases new; cases "m_obj this") (simp_all add: Ref_assign_ptr_def Let_def)
  with l1 l2 c2 show ?thesis by auto
qed

lemma Ref_from_ptr_eq: "Ref_from_ptr obj m = Ref_assign_ptr dtor Ref_default obj m"
  by (simp add: Ref_from_ptr_def Ref_assign_ptr_def Ref_default_def Let_def split: sum.splits)

lemma Ref_copy_eq: "Ref_copy obj m = Ref_assign_ptr dtor Ref_default (m_obj obj) m"
  by (simp add: Ref_copy_def Ref_assign_ptr_def Ref_default_def Let_def split: sum.splits)

lemma Ref_assign_eq: "Ref_assign dtor this obj m = Ref_assign_ptr dtor this (m_obj obj) m"
  by (simp add: Ref_assign_def Ref_assign_ptr_def)

lemma Ref_dtor_eq:
  "Ref_dtor dtor this m =
     (case Ref_assign_ptr dtor this None m of Inl e \<Rightarrow> Inl e | Inr (r, m1) \<Rightarrow> Inr m1)"
  by (simp add: Ref_dtor_def Ref_assign_ptr_def Let_def split: sum.splits)

lemma length_filter_update:
  "i < length xs \<Longrightarrow>
     length (filter P (xs[i := y])) =
       length (filter P xs) + (if P y then 1 else 0) - (if P (xs ! i) then 1 else 0)"
proof (induction xs arbitrary: i)
  case Nil
  then show ?case by simp
next
  case (Cons x xs)
  show ?case
  proof (cases i)
    case 0
    then show ?thesis by simp
  next
    case (Suc j)
    then have j: "j < length xs" using Cons.prems by simp
    have "P (xs ! j) \<Longrightarrow> 0 < length (filter P xs)"
      using j by (auto simp: filter_empty_conv)
    then show ?thesis using Suc Cons.IH [OF j] by auto
  qed
qed

lemma count_ok_iff:
  "count_ok s a \<longleftrightarrow>
     (case objects (mem s) ! a of
        Some ob \<Rightarrow> m_refs ob = of_nat (handle_count s a) \<and> handle_count s a \<le> INT_MAX
      | None \<Rightarrow> handle_count s a = 0)"
  by (simp add: count_ok_def sint_eq_int_iff split: option.splits)

lemma ref_inv_counted:
  assumes "ref_inv s"
  shows "counted (objects (mem s)) (handle_count s)"
  unfolding counted_def
proof (intro allI impI)
  fix a assume "a < length (objects (mem s))"
  then have "count_ok s a" using assms by (simp add: ref_inv_def list_all_iff)
  then show "case objects (mem s) ! a of
               Some ob \<Rightarrow> m_refs ob = of_nat (handle_count s a) \<and> handle_count s a < 2 ^ 32
             | None \<Rightarrow> handle_count s a = 0"
    by (auto simp: count_ok_iff INT_MAX_def split: option.splits)
qed

lemma handle_count_pos_iff:
  "0 < handle_count s a \<longleftrightarrow> (\<exists>h \<in> set (handles s). holds a h)"
  by (auto simp: handle_count_def filter_empty_conv)

lemma ref_inv_outside:
  assumes "ref_inv s" and "\<not> a < length (objects (mem s))"
  shows "handle_count s a = 0"
proof (rule ccontr)
  assume "handle_count s a \<noteq> 0"
  then obtain h where h: "h \<in> set (handles s)" "holds a h"
    using handle_count_pos_iff [of s a] by auto
  then have "in_store s h" using assms(1) by (simp add: ref_inv_def list_all_iff)
  with h(2) assms(2) show False
    by (auto simp: holds_def in_store_def split: option.splits)
qed

lemma ref_inv_bound:
  assumes "ref_inv s"
  shows "handle_count s a \<le> INT_MAX"
proof (cases "a < length (objects (mem s))")
  case True
  then have "count_ok s a" using assms by (simp add: ref_inv_def list_all_iff)
  then show ?thesis by (auto simp: count_ok_iff split: option.splits)
next
  case False
  then show ?thesis using ref_inv_outside [OF assms] by simp
qed

lemma ref_inv_held:
  assumes inv: "ref_inv s" and h: "handle s i = Some r" and r: "m_obj r = Some a"
  shows "a < length (objects (mem s)) \<and> 0 < handle_count s a"
proof -
  from h have mem: "Some r \<in> set (handles s)"
    by (auto simp: handle_def split: if_splits) (metis nth_mem)
  have "holds a (Some r)" using r by (simp add: holds_def)
  with mem have pos: "0 < handle_count s a" using handle_count_pos_iff by blast
  then show ?thesis using ref_inv_outside [OF inv, of a] by auto
qed

lemma ref_invI:
  assumes c: "counted (objects (mem s)) (handle_count s)"
    and b: "within_INT_MAX s"
    and i: "list_all (in_store s) (handles s)"
  shows "ref_inv s"
proof -
  have "count_ok s a" if a: "a < length (objects (mem s))" for a
  proof -
    have "handle_count s a \<le> INT_MAX"
      using b a by (simp add: within_INT_MAX_def list_all_iff)
    then show ?thesis
      using c a by (auto simp: count_ok_iff counted_def split: option.splits)
  qed
  then show ?thesis using i by (simp add: ref_inv_def list_all_iff)
qed

lemma transition_core:
  assumes inv: "ref_inv s"
    and new: "live_ptr s new"
    and old: "\<And>a. m_obj this = Some a \<Longrightarrow>
                a < length (objects (mem s)) \<and> 0 < handle_count s a"
    and hc: "\<And>b. length (filter (holds b) hs) =
                handle_count s b + (if new = Some b then 1 else 0)
                  - (if m_obj this = Some b then 1 else 0)"
    and st: "set hs \<subseteq> insert None (insert (Some (this\<lparr>m_obj := new\<rparr>)) (set (handles s)))"
  shows "\<exists>m2. Ref_assign_ptr RefCountObject_dtor this new (mem s) = Inr (this\<lparr>m_obj := new\<rparr>, m2)
           \<and> (within_INT_MAX \<lparr>mem = m2, handles = hs\<rparr> \<longrightarrow> ref_inv \<lparr>mem = m2, handles = hs\<rparr>)"
proof -
  have n: "object_at (mem s) a \<noteq> None \<and> handle_count s a + 1 < 2 ^ 32" if "new = Some a" for a
  proof -
    have "handle_count s a \<le> INT_MAX" by (rule ref_inv_bound [OF inv])
    then show ?thesis using new that by (simp add: live_ptr_def INT_MAX_def)
  qed
  from Ref_assign_ptr_counted [OF ref_inv_counted [OF inv] n old]
  obtain m2 where r: "Ref_assign_ptr RefCountObject_dtor this new (mem s)
                        = Inr (this\<lparr>m_obj := new\<rparr>, m2)"
    and l: "length (objects m2) = length (objects (mem s))"
    and c: "counted (objects m2)
              (\<lambda>b. handle_count s b + (if new = Some b then 1 else 0)
                     - (if m_obj this = Some b then 1 else 0))"
    by blast
  let ?s = "\<lparr>mem = m2, handles = hs\<rparr>"
  have "handle_count ?s =
          (\<lambda>b. handle_count s b + (if new = Some b then 1 else 0)
                 - (if m_obj this = Some b then 1 else 0))"
    by (rule ext) (simp add: handle_count_def hc [unfolded handle_count_def])
  with c have c': "counted (objects (mem ?s)) (handle_count ?s)" by simp
  have i: "list_all (in_store ?s) (handles ?s)"
    unfolding list_all_iff
  proof
    fix h assume "h \<in> set (handles ?s)"
    then consider "h = None" | "h = Some (this\<lparr>m_obj := new\<rparr>)" | "h \<in> set (handles s)"
      using st by auto
    then show "in_store ?s h"
    proof cases
      case 1
      then show ?thesis by (simp add: in_store_def)
    next
      case 2
      then show ?thesis
        using new l
        by (auto simp: in_store_def live_ptr_def object_at_def split: option.splits if_splits)
    next
      case 3
      then have "in_store s h" using inv by (simp add: ref_inv_def list_all_iff)
      then show ?thesis using l by (simp add: in_store_def split: option.splits)
    qed
  qed
  have "within_INT_MAX ?s \<longrightarrow> ref_inv ?s"
    using ref_invI [OF c' _ i] by blast
  with r show ?thesis by blast
qed

lemma ref_inv_held_live:
  assumes inv: "ref_inv s" and h: "handle s i = Some r"
  shows "live_ptr s (m_obj r)"
proof (cases "m_obj r")
  case None
  then show ?thesis by (simp add: live_ptr_def)
next
  case (Some a)
  from ref_inv_held [OF inv h Some]
  have a: "a < length (objects (mem s))" and pos: "0 < handle_count s a" by auto
  have "objects (mem s) ! a \<noteq> None"
    using ref_inv_counted [OF inv] a pos by (auto simp: counted_def split: option.splits)
  then show ?thesis using Some a by (simp add: live_ptr_def object_at_def)
qed

lemma step_append:
  assumes inv: "ref_inv s" and new: "live_ptr s new"
  shows "\<exists>m2. Ref_assign_ptr RefCountObject_dtor Ref_default new (mem s) = Inr (\<lparr>m_obj = new\<rparr>, m2)
           \<and> (within_INT_MAX \<lparr>mem = m2, handles = handles s @ [Some \<lparr>m_obj = new\<rparr>]\<rparr>
                \<longrightarrow> ref_inv \<lparr>mem = m2, handles = handles s @ [Some \<lparr>m_obj = new\<rparr>]\<rparr>)"
proof -
  have "\<exists>m2. Ref_assign_ptr RefCountObject_dtor Ref_default new (mem s)
               = Inr (Ref_default\<lparr>m_obj := new\<rparr>, m2)
           \<and> (within_INT_MAX \<lparr>mem = m2, handles = handles s @ [Some \<lparr>m_obj = new\<rparr>]\<rparr>
                \<longrightarrow> ref_inv \<lparr>mem = m2, handles = handles s @ [Some \<lparr>m_obj = new\<rparr>]\<rparr>)"
    by (rule transition_core [OF inv new])
       (auto simp: Ref_default_def handle_count_def holds_def)
  then show ?thesis by (simp add: Ref_default_def)
qed

lemma step_update:
  assumes inv: "ref_inv s" and new: "live_ptr s new"
    and h: "handle s i = Some this"
    and h': "h' = Some (this\<lparr>m_obj := new\<rparr>) \<or> new = None \<and> h' = None"
  shows "\<exists>m2. Ref_assign_ptr RefCountObject_dtor this new (mem s) = Inr (this\<lparr>m_obj := new\<rparr>, m2)
           \<and> (within_INT_MAX \<lparr>mem = m2, handles = (handles s)[i := h']\<rparr>
                \<longrightarrow> ref_inv \<lparr>mem = m2, handles = (handles s)[i := h']\<rparr>)"
proof (rule transition_core [OF inv new])
  fix a assume "m_obj this = Some a"
  then show "a < length (objects (mem s)) \<and> 0 < handle_count s a"
    by (rule ref_inv_held [OF inv h])
next
  from h have i: "i < length (handles s)" and nth: "handles s ! i = Some this"
    by (auto simp: handle_def split: if_splits)
  fix b
  have "holds b h' = (new = Some b)" using h' by (auto simp: holds_def)
  moreover have "holds b (handles s ! i) = (m_obj this = Some b)"
    using nth by (simp add: holds_def)
  ultimately show "length (filter (holds b) ((handles s)[i := h'])) =
      handle_count s b + (if new = Some b then 1 else 0) - (if m_obj this = Some b then 1 else 0)"
    using length_filter_update [OF i, of "holds b" h'] by (simp add: handle_count_def)
next
  show "set ((handles s)[i := h'])
          \<subseteq> insert None (insert (Some (this\<lparr>m_obj := new\<rparr>)) (set (handles s)))"
    using set_update_subset_insert [of "handles s" i h'] h' by auto
qed

lemma step_New:
  assumes inv: "ref_inv s"
  shows "ref_inv (s\<lparr>mem := snd (new_object (mem s))\<rparr>)"
proof -
  let ?s = "s\<lparr>mem := snd (new_object (mem s))\<rparr>"
  have objs: "objects (mem ?s) = objects (mem s) @ [Some RefCountObject_ctor]"
    by (simp add: new_object_def)
  have hc: "handle_count ?s = handle_count s"
    by (rule ext) (simp add: handle_count_def)
  have "count_ok ?s a" if "a < length (objects (mem ?s))" for a
  proof (cases "a < length (objects (mem s))")
    case True
    then have "count_ok s a" using inv by (simp add: ref_inv_def list_all_iff)
    then show ?thesis
      using True
      by (auto simp: count_ok_def new_object_def handle_count_def nth_append
               split: option.splits)
  next
    case False
    then have "a = length (objects (mem s))" using that by (simp add: new_object_def)
    then show ?thesis
      using ref_inv_outside [OF inv False]
      by (simp add: count_ok_def new_object_def handle_count_def RefCountObject_ctor_def)
  qed
  moreover have "in_store ?s h" if "h \<in> set (handles ?s)" for h
  proof -
    have "in_store s h" using that inv by (simp add: ref_inv_def list_all_iff)
    then show ?thesis by (auto simp: in_store_def new_object_def split: option.splits)
  qed
  ultimately show ?thesis by (simp add: ref_inv_def list_all_iff)
qed

lemma Ref_step_preserves:
  assumes inv: "ref_inv s" and wf: "wf_op s c"
  shows "\<exists>s'. Ref_step c s = Inr s' \<and> (within_INT_MAX s' \<longrightarrow> ref_inv s')"
proof (cases c)
  case New
  then show ?thesis using step_New [OF inv] by (simp add: Ref_step_def)
next
  case DefaultCtor
  have "live_ptr s None" by (simp add: live_ptr_def)
  have eq: "s\<lparr>handles := hs\<rparr> = \<lparr>mem = mem s, handles = hs\<rparr>" for hs
    by (cases s) simp
  from step_append [OF inv \<open>live_ptr s None\<close>] show ?thesis
    using DefaultCtor
    by (auto simp: Ref_step_def Ref_assign_ptr_def Ref_default_def eq)
next
  case (PtrCtor obj)
  then have "live_ptr s obj" using wf by (simp add: wf_op_def)
  from step_append [OF inv this] show ?thesis
    using PtrCtor by (auto simp: Ref_step_def Ref_from_ptr_eq [of _ _ RefCountObject_dtor])
next
  case (CopyCtor j)
  then obtain src where src: "handle s j = Some src" using wf by (auto simp: wf_op_def)
  from step_append [OF inv ref_inv_held_live [OF inv src]] show ?thesis
    using CopyCtor src by (auto simp: Ref_step_def Ref_copy_eq [of _ _ RefCountObject_dtor])
next
  case (AssignRef i j)
  then obtain this src where hi: "handle s i = Some this" and hj: "handle s j = Some src"
    using wf by (auto simp: wf_op_def)
  from step_update [OF inv ref_inv_held_live [OF inv hj] hi, of "Some (this\<lparr>m_obj := m_obj src\<rparr>)"]
  show ?thesis
    using AssignRef hi hj by (auto simp: Ref_step_def Ref_assign_eq)
next
  case (AssignPtr i obj)
  then obtain this where hi: "handle s i = Some this" and obj: "live_ptr s obj"
    using wf by (auto simp: wf_op_def)
  from step_update [OF inv obj hi, of "Some (this\<lparr>m_obj := obj\<rparr>)"]
  show ?thesis
    using AssignPtr hi by (auto simp: Ref_step_def)
next
  case (Dtor i)
  then obtain this where hi: "handle s i = Some this"
    using wf by (auto simp: wf_op_def)
  have "live_ptr s None" by (simp add: live_ptr_def)
  from step_update [OF inv this hi, of None]
  show ?thesis
    using Dtor hi by (auto simp: Ref_step_def Ref_dtor_eq)
qed

lemma ref_inv_within: "ref_inv s \<Longrightarrow> within_INT_MAX s"
  using ref_inv_bound [of s] by (simp add: within_INT_MAX_def list_all_iff)

lemma Ref_step_many_handles:
  "Ref_step (PtrCtor (Some 0)) (many_handles n) = Inr (many_handles (Suc n))"
  by (simp add: Ref_step_def Ref_from_ptr_def AddRef_def deref_def store_refs_def log_call_def
        many_handles_def replicate_append_same)

lemma run_many_handles:
  "run (replicate n (PtrCtor (Some 0))) (many_handles k) = Inr (many_handles (k + n))"
  by (induction n arbitrary: k) (simp_all add: Ref_step_many_handles)

lemma run_New_many_handles:
  "run (New # replicate n (PtrCtor (Some 0))) init_state = Inr (many_handles n)"
proof -
  have "Ref_step New init_state = Inr (many_handles 0)"
    by (simp add: Ref_step_def new_object_def init_state_def many_handles_def
          RefCountObject_ctor_def)
  then show ?thesis using run_many_handles [of n 0] by simp
qed

lemma handle_count_many_handles: "handle_count (many_handles n) 0 = n"
  by (simp add: handle_count_def many_handles_def filter_replicate holds_def)

lemma ref_inv_many_handles_iff: "ref_inv (many_handles n) \<longleftrightarrow> n \<le> INT_MAX"
proof -
  have objs: "objects (mem (many_handles n)) = [Some \<lparr>m_refs = of_nat n\<rparr>]"
    by (simp add: many_handles_def)
  have "list_all (in_store (many_handles n)) (handles (many_handles n))"
    by (simp add: many_handles_def in_store_def list_all_iff)
  moreover have "count_ok (many_handles n) 0 \<longleftrightarrow> n \<le> INT_MAX"
    by (simp add: count_ok_iff objs handle_count_many_handles)
  ultimately show ?thesis by (simp add: ref_inv_def objs)
qed

subsection \<open>Destructors that destroy \<^verbatim>\<open>Ref\<close> members\<close>

text \<open>
  In the code, the destructor of a class with a \<^verbatim>\<open>Ref\<close> member runs \<^verbatim>\<open>~Ref\<close> on the
  member inside \<^verbatim>\<open>delete this\<close>, before the storage of the object is released. A
  program over handles has the member among its handles and destroys it by a step of its
  own, after the step that deletes the object. Both give the same memory. A \<^verbatim>\<open>Release\<close>
  that does not delete runs no destructor. When the last handle on an object is
  destroyed in a state that satisfies the invariant, no other handle wraps the object,
  so a member of the object wraps another object, and then running \<^verbatim>\<open>~Ref\<close> on the member
  from the destructor is deleting the object first and running \<^verbatim>\<open>~Ref\<close> on the member
  afterwards.
\<close>

lemma Release_no_delete:
  assumes "object_at m a = Some ob" and "m_refs ob \<noteq> 1"
  shows "Release dtor (Some a) m = Release RefCountObject_dtor (Some a) m"
  using assms(2) by (simp add: Release_live [OF assms(1)])

lemma delete_this_then_member:
  assumes "m_obj r \<noteq> Some a"
  shows "delete_this (\<lambda>a. Ref_dtor RefCountObject_dtor r) a m =
           (case delete_this RefCountObject_dtor a m of
              Inl e \<Rightarrow> Inl e
            | Inr m1 \<Rightarrow> Ref_dtor RefCountObject_dtor r m1)"
proof (cases "m_obj r")
  case None
  then show ?thesis
    by (simp add: delete_this_def Ref_dtor_def RefCountObject_dtor_def)
next
  case (Some b)
  with assms have ne: "b \<noteq> a" by simp
  show ?thesis
    using Some ne
    by (auto simp: delete_this_def Ref_dtor_def RefCountObject_dtor_def Release_def deref_def
          store_refs_def log_call_def Let_def list_update_swap
          split: option.splits sum.splits)
qed

lemma Release_then_member:
  assumes live: "object_at m a = Some ob" and one: "m_refs ob = 1" and r: "m_obj r \<noteq> Some a"
  shows "Release (\<lambda>a. Ref_dtor RefCountObject_dtor r) (Some a) m =
           (case Release RefCountObject_dtor (Some a) m of
              Inl e \<Rightarrow> Inl e
            | Inr m1 \<Rightarrow> Ref_dtor RefCountObject_dtor r m1)"
  using one by (simp add: Release_live [OF live] delete_this_then_member [OF r])

lemma last_handle_only:
  assumes inv: "ref_inv s"
    and hi: "handle s i = Some ri" and a: "m_obj ri = Some a"
    and ob: "object_at (mem s) a = Some ob" and one: "m_refs ob = 1"
    and hj: "handle s j = Some rj" and ne: "j \<noteq> i"
  shows "m_obj rj \<noteq> Some a"
proof -
  from hi have i: "i < length (handles s)" and nthi: "handles s ! i = Some ri"
    by (auto simp: handle_def split: if_splits)
  from hj have j: "j < length (handles s)" and nthj: "handles s ! j = Some rj"
    by (auto simp: handle_def split: if_splits)
  from ob have al: "a < length (objects (mem s))" and nth: "objects (mem s) ! a = Some ob"
    by (auto simp: object_at_def split: if_splits)
  have "count_ok s a" using inv al by (simp add: ref_inv_def list_all_iff)
  then have "handle_count s a = 1" using nth one by (simp add: count_ok_def)
  then have "length (filter (holds a) ((handles s)[i := None])) = 0"
    using length_filter_update [OF i, of "holds a" None] nthi a
    by (simp add: handle_count_def holds_def)
  then have none: "\<forall>h \<in> set ((handles s)[i := None]). \<not> holds a h"
    by (simp add: filter_empty_conv)
  have "(handles s)[i := None] ! j = Some rj" using ne nthj by simp
  moreover have "j < length ((handles s)[i := None])" using j by simp
  ultimately have "Some rj \<in> set ((handles s)[i := None])" by (metis nth_mem)
  with none show ?thesis by (auto simp: holds_def)
qed

text \<open>
  The handle \<open>i\<close> wraps an object of a class with one \<^verbatim>\<open>Ref\<close> member, which is the
  handle \<open>j\<close>. What \<^verbatim>\<open>~Ref\<close> on \<open>i\<close> does to the memory in the code, with the destructor
  of that class inside \<^verbatim>\<open>delete this\<close>, is what the program over handles does by the
  step \<open>Dtor i\<close>, followed by the step \<open>Dtor j\<close> when the object is deleted.
\<close>

lemma member_destroyed_by_step:
  assumes inv: "ref_inv s"
    and hi: "handle s i = Some ri" and a: "m_obj ri = Some a"
    and ob: "object_at (mem s) a = Some ob"
    and hj: "handle s j = Some rj" and ne: "j \<noteq> i"
  shows "Ref_dtor (\<lambda>a. Ref_dtor RefCountObject_dtor rj) ri (mem s) =
           (case (if m_refs ob = 1 then run [Dtor i, Dtor j] s else run [Dtor i] s) of
              Inl e \<Rightarrow> Inl e
            | Inr s1 \<Rightarrow> Inr (mem s1))"
proof -
  let ?D = "\<lambda>a. Ref_dtor RefCountObject_dtor rj"
  have step_i: "Ref_step (Dtor i) s =
      (case Release RefCountObject_dtor (Some a) (mem s) of
         Inl e \<Rightarrow> Inl e
       | Inr m1 \<Rightarrow> Inr \<lparr>mem = m1, handles = (handles s)[i := None]\<rparr>)"
    using hi a by (simp add: Ref_step_def Ref_dtor_def)
  have hj': "handle \<lparr>mem = m1, handles = (handles s)[i := None]\<rparr> j = Some rj" for m1
    using hj ne by (auto simp: handle_def split: if_splits)
  show ?thesis
  proof (cases "m_refs ob = 1")
    case True
    have "m_obj rj \<noteq> Some a"
      by (rule last_handle_only [OF inv hi a ob True hj ne])
    from Release_then_member [OF ob True this]
    have "Ref_dtor ?D ri (mem s) =
            (case Release RefCountObject_dtor (Some a) (mem s) of
               Inl e \<Rightarrow> Inl e
             | Inr m1 \<Rightarrow> Ref_dtor RefCountObject_dtor rj m1)"
      using a by (simp add: Ref_dtor_def)
    then show ?thesis
      using True by (simp add: step_i hj' Ref_step_def [of "Dtor j"] split: sum.splits)
  next
    case False
    from Release_no_delete [OF ob False, of ?D]
    have "Ref_dtor ?D ri (mem s) = Release RefCountObject_dtor (Some a) (mem s)"
      using a by (simp add: Ref_dtor_def)
    then show ?thesis
      using False by (simp add: step_i split: sum.splits)
  qed
qed

subsection \<open>The invariant is preserved\<close>

text \<open>
  Claim C1, as the code has it. From a state that satisfies the reference-counting
  invariant, every operation on handles (default construction, construction from a
  pointer, copy construction, assignment from a handle or from a pointer, destruction,
  and the construction of a new object) whose operands are well formed runs without a
  fault, and the invariant holds afterwards exactly when no object has more than
  \<^verbatim>\<open>INT_MAX\<close> live handles: then every live object's \<^verbatim>\<open>m_refs\<close> equals the number of
  live handles on it, and no object with a live handle has been deleted.
\<close>

theorem Ref_step_ref_inv:
  assumes inv: "ref_inv s" and wf: "wf_op s c"
  shows "\<exists>s'. Ref_step c s = Inr s' \<and> (ref_inv s' \<longleftrightarrow> within_INT_MAX s')"
proof -
  from Ref_step_preserves [OF inv wf] obtain s'
    where step: "Ref_step c s = Inr s'" and keep: "within_INT_MAX s' \<longrightarrow> ref_inv s'"
    by blast
  have "ref_inv s' \<longrightarrow> within_INT_MAX s'"
    by (simp add: ref_inv_within)
  with keep have "ref_inv s' \<longleftrightarrow> within_INT_MAX s'" by blast
  with step show ?thesis by blast
qed

theorem Ref_step_ref_inv_witness:
  "ref_inv (many_handles 1) \<and> wf_op (many_handles 1) (CopyCtor 0)
   \<and> Ref_step (CopyCtor 0) (many_handles 1)
       = Inr \<lparr>mem = \<lparr>objects = [Some \<lparr>m_refs = 2\<rparr>], calls = [CallAddRef 0, CallAddRef 0]\<rparr>,
              handles = [Some \<lparr>m_obj = Some 0\<rparr>, Some \<lparr>m_obj = Some 0\<rparr>]\<rparr>
   \<and> ref_inv \<lparr>mem = \<lparr>objects = [Some \<lparr>m_refs = 2\<rparr>], calls = [CallAddRef 0, CallAddRef 0]\<rparr>,
              handles = [Some \<lparr>m_obj = Some 0\<rparr>, Some \<lparr>m_obj = Some 0\<rparr>]\<rparr>"
proof -
  let ?s1 = "\<lparr>mem = \<lparr>objects = [Some \<lparr>m_refs = 2\<rparr>], calls = [CallAddRef 0, CallAddRef 0]\<rparr>,
              handles = [Some \<lparr>m_obj = Some 0\<rparr>, Some \<lparr>m_obj = Some 0\<rparr>]\<rparr>"
  have inv: "ref_inv (many_handles 1)"
    by (simp add: ref_inv_many_handles_iff INT_MAX_def)
  have wf: "wf_op (many_handles 1) (CopyCtor 0)"
    by (simp add: wf_op_def handle_def many_handles_def)
  have step: "Ref_step (CopyCtor 0) (many_handles 1) = Inr ?s1"
    by (simp add: Ref_step_def handle_def many_handles_def Ref_copy_def AddRef_def deref_def
          store_refs_def log_call_def)
  have bound: "within_INT_MAX ?s1"
    by (simp add: within_INT_MAX_def handle_count_def holds_def INT_MAX_def)
  from Ref_step_ref_inv [OF inv wf] step bound have "ref_inv ?s1" by auto
  with inv wf step show ?thesis by simp
qed

text \<open>
  An operation that runs without a fault had well-formed operands, so the invariant holds
  in every state that a program reaches from the empty state, as long as the states on
  the way stay within the bound.
\<close>

lemma AddRef_Inr_live: "AddRef (Some a) m = Inr m1 \<Longrightarrow> object_at m a \<noteq> None"
  by (auto simp: AddRef_def deref_def object_at_def split: if_splits option.splits)

lemma Ref_assign_ptr_Inr_live:
  "Ref_assign_ptr dtor this obj m = Inr r
     \<Longrightarrow> obj = None \<or> (\<exists>a. obj = Some a \<and> object_at m a \<noteq> None)"
  by (cases obj) (auto simp: Ref_assign_ptr_def Let_def split: sum.splits dest: AddRef_Inr_live)

lemma Ref_step_Inr_wf:
  assumes "Ref_step c s = Inr s1"
  shows "wf_op s c"
proof (cases c)
  case (PtrCtor obj)
  then obtain r where "Ref_assign_ptr RefCountObject_dtor Ref_default obj (mem s) = Inr r"
    using assms
    by (auto simp: Ref_step_def Ref_from_ptr_eq [of _ _ RefCountObject_dtor] split: sum.splits)
  from Ref_assign_ptr_Inr_live [OF this] show ?thesis
    using PtrCtor by (auto simp: wf_op_def live_ptr_def)
next
  case (AssignPtr i obj)
  then obtain this r where "handle s i = Some this"
    "Ref_assign_ptr RefCountObject_dtor this obj (mem s) = Inr r"
    using assms by (auto simp: Ref_step_def split: option.splits sum.splits)
  then show ?thesis
    using AssignPtr Ref_assign_ptr_Inr_live [of RefCountObject_dtor this obj "mem s" r]
    by (auto simp: wf_op_def live_ptr_def)
qed (use assms in \<open>auto simp: wf_op_def Ref_step_def split: option.splits sum.splits\<close>)

lemma ref_inv_init_state: "ref_inv init_state"
  by (simp add: ref_inv_def init_state_def)

lemma run_ref_inv:
  "ref_inv s \<Longrightarrow> run cs s = Inr s1 \<Longrightarrow> run_within cs s \<Longrightarrow> ref_inv s1"
proof (induction cs arbitrary: s)
  case Nil
  then show ?case by simp
next
  case (Cons c cs)
  from Cons.prems(2) obtain s2 where step: "Ref_step c s = Inr s2" and rest: "run cs s2 = Inr s1"
    by (auto split: sum.splits)
  from Cons.prems(3) step have b: "within_INT_MAX s2" and w: "run_within cs s2" by simp_all
  from Ref_step_preserves [OF Cons.prems(1) Ref_step_Inr_wf [OF step]] step b
  have "ref_inv s2" by auto
  from Cons.IH [OF this rest w] show ?case .
qed

text \<open>
  The claim without the bound fails. One object and \<^verbatim>\<open>INT_MAX\<close> handles on it are
  reached from the empty program by handle operations only, and the invariant holds
  there. Constructing one more handle from the pointer makes \<^verbatim>\<open>AddRef\<close> wrap
  \<^verbatim>\<open>m_refs\<close> from \<^verbatim>\<open>INT_MAX\<close> to \<^verbatim>\<open>INT_MIN\<close>, while \<open>2 ^ 31\<close> handles are alive.
\<close>

theorem ref_inv_fails_beyond_INT_MAX:
  "run (New # replicate 2147483647 (PtrCtor (Some 0))) init_state = Inr (many_handles 2147483647)
   \<and> ref_inv (many_handles 2147483647)
   \<and> wf_op (many_handles 2147483647) (PtrCtor (Some 0))
   \<and> Ref_step (PtrCtor (Some 0)) (many_handles 2147483647) = Inr (many_handles 2147483648)
   \<and> \<not> ref_inv (many_handles 2147483648)
   \<and> objects (mem (many_handles 2147483648)) = [Some \<lparr>m_refs = - 2147483648\<rparr>]
   \<and> handle_count (many_handles 2147483648) 0 = 2147483648"
proof -
  have 1: "run (New # replicate 2147483647 (PtrCtor (Some 0))) init_state
             = Inr (many_handles 2147483647)"
    by (rule run_New_many_handles)
  have 2: "ref_inv (many_handles 2147483647)"
    by (simp add: ref_inv_many_handles_iff INT_MAX_def)
  have 3: "wf_op (many_handles 2147483647) (PtrCtor (Some 0))"
    by (simp add: wf_op_def live_ptr_def object_at_def many_handles_def)
  have 4: "Ref_step (PtrCtor (Some 0)) (many_handles 2147483647) = Inr (many_handles 2147483648)"
    using Ref_step_many_handles [of 2147483647] by simp
  have 5: "\<not> ref_inv (many_handles 2147483648)"
    by (simp add: ref_inv_many_handles_iff INT_MAX_def)
  have 6: "objects (mem (many_handles 2147483648)) = [Some \<lparr>m_refs = - 2147483648\<rparr>]"
    by (simp add: many_handles_def)
  have 7: "handle_count (many_handles 2147483648) 0 = 2147483648"
    by (rule handle_count_many_handles)
  from 1 2 3 4 5 6 7 show ?thesis by blast
qed

text \<open>
  Further on the count wraps all the way round. With \<open>2 ^ 32 + 1\<close> handles on one
  object, \<^verbatim>\<open>m_refs\<close> is 1, and destroying a single handle deletes the object while
  \<open>2 ^ 32\<close> live handles still wrap it.
\<close>

lemma delete_with_live_handles:
  "Ref_step (Dtor 0) (many_handles 4294967297)
     = Inr \<lparr>mem = \<lparr>objects = [None],
                   calls = replicate 4294967297 (CallAddRef 0) @ [CallRelease 0]\<rparr>,
            handles = (replicate 4294967297 (Some \<lparr>m_obj = Some 0\<rparr>))[0 := None]\<rparr>
   \<and> handle_count
         \<lparr>mem = \<lparr>objects = [None],
                 calls = replicate 4294967297 (CallAddRef 0) @ [CallRelease 0]\<rparr>,
          handles = (replicate 4294967297 (Some \<lparr>m_obj = Some 0\<rparr>))[0 := None]\<rparr> 0
       = 4294967296"
proof -
  have h: "handle (many_handles 4294967297) 0 = Some \<lparr>m_obj = Some 0\<rparr>"
    by (simp add: handle_def many_handles_def)
  have r: "Release RefCountObject_dtor (Some 0) (mem (many_handles 4294967297))
             = Inr \<lparr>objects = [None],
                    calls = replicate 4294967297 (CallAddRef 0) @ [CallRelease 0]\<rparr>"
    by (simp add: many_handles_def Release_def deref_def store_refs_def log_call_def
          delete_this_RefCountObject_dtor)
  have 1: "Ref_step (Dtor 0) (many_handles 4294967297)
     = Inr \<lparr>mem = \<lparr>objects = [None],
                   calls = replicate 4294967297 (CallAddRef 0) @ [CallRelease 0]\<rparr>,
            handles = (replicate 4294967297 (Some \<lparr>m_obj = Some 0\<rparr>))[0 := None]\<rparr>"
    using h r by (simp add: Ref_step_def Ref_dtor_def) (simp add: many_handles_def)
  have "length (filter (holds 0) ((replicate 4294967297 (Some \<lparr>m_obj = Some 0\<rparr>))[0 := None]))
          = 4294967296"
    by (subst length_filter_update) (simp_all add: filter_replicate holds_def)
  then show ?thesis using 1 by (simp add: handle_count_def)
qed

section \<open>Self-assignment\<close>

lemma AddRef_then_Release:
  assumes live: "object_at m a = Some ob" and nz: "m_refs ob \<noteq> 0"
  shows "\<exists>m1. AddRef (Some a) m = Inr m1
           \<and> Release dtor (Some a) m1 = Inr (m\<lparr>calls := calls m @ [CallAddRef a, CallRelease a]\<rparr>)"
proof -
  from live have a: "a < length (objects m)" and nth: "objects m ! a = Some ob"
    by (auto simp: object_at_def split: if_splits)
  let ?ob1 = "ob\<lparr>m_refs := m_refs ob + 1\<rparr>"
  let ?m1 = "store_refs a ob (m_refs ob + 1) (log_call (CallAddRef a) m)"
  have 1: "AddRef (Some a) m = Inr ?m1" by (rule AddRef_live [OF live])
  have live1: "object_at ?m1 a = Some ?ob1"
    using a by (simp add: object_at_store_refs)
  have ne: "m_refs ?ob1 \<noteq> 1" using nz by simp
  have "(objects m)[a := Some ob] = objects m"
    using nth by (metis list_update_id)
  then have "store_refs a ?ob1 (m_refs ?ob1 - 1) (log_call (CallRelease a) ?m1)
               = m\<lparr>calls := calls m @ [CallAddRef a, CallRelease a]\<rparr>"
    by (simp add: store_refs_def log_call_def)
  with ne have 2: "Release dtor (Some a) ?m1
                     = Inr (m\<lparr>calls := calls m @ [CallAddRef a, CallRelease a]\<rparr>)"
    by (simp only: Release_live [OF live1] if_False)
  from 1 2 show ?thesis by blast
qed

text \<open>
  In a state that satisfies the reference-counting invariant, the reference of every
  live handle is counted.
\<close>

lemma ref_inv_counted_ref:
  assumes inv: "ref_inv s" and h: "handle s i = Some r"
  shows "counted_ref r (mem s)"
proof (cases "m_obj r")
  case None
  then show ?thesis by (simp add: counted_ref_def)
next
  case (Some a)
  from ref_inv_held [OF inv h Some]
  have a: "a < length (objects (mem s))" and pos: "0 < handle_count s a" by auto
  have "count_ok s a" using inv a by (simp add: ref_inv_def list_all_iff)
  then show ?thesis
    using Some a pos
    by (auto simp: counted_ref_def object_at_def count_ok_def split: option.splits)
qed

text \<open>
  Self-assignment of a handle whose reference is counted: \<^verbatim>\<open>AddRef\<close> comes first, so
  \<^verbatim>\<open>Release\<close> finds a count that is not 1 and only takes the count back to what it was.
\<close>

lemma self_assign_counted:
  assumes "counted_ref r m"
  shows "Ref_assign_ptr dtor r (m_obj r) m = Inr (r, m\<lparr>calls := calls m @ self_assign_calls r\<rparr>)"
proof (cases "m_obj r")
  case None
  then show ?thesis
    by (simp add: Ref_assign_ptr_def self_assign_calls_def)
next
  case (Some a)
  with assms obtain ob where live: "object_at m a = Some ob" and nz: "m_refs ob \<noteq> 0"
    by (auto simp: counted_ref_def split: option.splits)
  from AddRef_then_Release [OF live nz] obtain m1 where
    "AddRef (Some a) m = Inr m1"
    "Release dtor (Some a) m1 = Inr (m\<lparr>calls := calls m @ [CallAddRef a, CallRelease a]\<rparr>)"
    by blast
  then show ?thesis
    using Some
    by (simp add: Ref_assign_ptr_def self_assign_calls_def)
qed

lemma self_assign_step:
  assumes inv: "ref_inv s" and h: "handle s i = Some r"
  shows "Ref_step (AssignPtr i (m_obj r)) s
           = Inr (s\<lparr>mem := (mem s)\<lparr>calls := calls (mem s) @ self_assign_calls r\<rparr>\<rparr>)"
proof -
  from h have i: "i < length (handles s)" and nth: "handles s ! i = Some r"
    by (auto simp: handle_def split: if_splits)
  have "(handles s)[i := Some r] = handles s"
    using nth by (metis list_update_id)
  moreover have "\<lparr>mem = m1, handles = handles s\<rparr> = s\<lparr>mem := m1\<rparr>" for m1
    by (cases s) simp
  ultimately show ?thesis
    using h self_assign_counted [OF ref_inv_counted_ref [OF inv h], of RefCountObject_dtor]
    by (simp add: Ref_step_def)
qed

text \<open>
  Claim C8, as the code has it. Assigning a handle to itself, or assigning it the raw
  pointer it already holds, leaves the wrapped pointer unchanged, leaves every object and
  every reference count unchanged and deletes nothing, provided that the reference of the
  handle is counted: the handle is null, or its object is alive with a count that is not
  zero. Then the memory afterwards differs from the memory before only in the record of
  calls, which shows \<^verbatim>\<open>AddRef\<close> on the object followed by \<^verbatim>\<open>Release\<close> on it (and no
  call for a null handle), and the destructor of the object, whatever it is, does not
  run. The reference of every live handle is counted in a state that satisfies the
  reference-counting invariant, and there a self-assignment step of a program leaves the
  handles and the objects as they are. The invariant holds in every state that a
  program of handle operations reaches from the empty state as long as no object has had
  more than \<^verbatim>\<open>INT_MAX\<close> live handles.
\<close>

theorem Ref_self_assign:
  "(counted_ref r m \<longrightarrow>
      Ref_assign dtor r r m = Inr (r, m\<lparr>calls := calls m @ self_assign_calls r\<rparr>)
    \<and> Ref_assign_ptr dtor r (GetPtr r) m = Inr (r, m\<lparr>calls := calls m @ self_assign_calls r\<rparr>))
   \<and> (ref_inv s \<and> handle s i = Some r \<longrightarrow>
      counted_ref r (mem s)
    \<and> Ref_step (AssignRef i i) s
        = Inr (s\<lparr>mem := (mem s)\<lparr>calls := calls (mem s) @ self_assign_calls r\<rparr>\<rparr>)
    \<and> Ref_step (AssignPtr i (GetPtr r)) s
        = Inr (s\<lparr>mem := (mem s)\<lparr>calls := calls (mem s) @ self_assign_calls r\<rparr>\<rparr>))
   \<and> (run cs init_state = Inr s' \<and> run_within cs init_state \<longrightarrow> ref_inv s')"
proof (intro conjI impI)
  assume c: "counted_ref r m"
  show "Ref_assign dtor r r m = Inr (r, m\<lparr>calls := calls m @ self_assign_calls r\<rparr>)"
    using self_assign_counted [OF c, of dtor] by (simp add: Ref_assign_eq)
  show "Ref_assign_ptr dtor r (GetPtr r) m = Inr (r, m\<lparr>calls := calls m @ self_assign_calls r\<rparr>)"
    using self_assign_counted [OF c, of dtor] by (simp add: GetPtr_def)
next
  assume "ref_inv s \<and> handle s i = Some r"
  then have inv: "ref_inv s" and h: "handle s i = Some r" by simp_all
  show "counted_ref r (mem s)" by (rule ref_inv_counted_ref [OF inv h])
  have eq: "Ref_step (AssignRef i i) s = Ref_step (AssignPtr i (m_obj r)) s"
    using h by (simp add: Ref_step_def Ref_assign_eq)
  show "Ref_step (AssignRef i i) s
          = Inr (s\<lparr>mem := (mem s)\<lparr>calls := calls (mem s) @ self_assign_calls r\<rparr>\<rparr>)"
    unfolding eq by (rule self_assign_step [OF inv h])
  show "Ref_step (AssignPtr i (GetPtr r)) s
          = Inr (s\<lparr>mem := (mem s)\<lparr>calls := calls (mem s) @ self_assign_calls r\<rparr>\<rparr>)"
    unfolding GetPtr_def by (rule self_assign_step [OF inv h])
next
  assume "run cs init_state = Inr s' \<and> run_within cs init_state"
  then show "ref_inv s'" using run_ref_inv [OF ref_inv_init_state] by blast
qed

theorem Ref_self_assign_witness:
  "run [New, PtrCtor (Some 0)] init_state = Inr (many_handles 1)
   \<and> run_within [New, PtrCtor (Some 0)] init_state
   \<and> ref_inv (many_handles 1)
   \<and> handle (many_handles 1) 0 = Some \<lparr>m_obj = Some 0\<rparr>
   \<and> counted_ref \<lparr>m_obj = Some 0\<rparr> (mem (many_handles 1))
   \<and> Ref_assign RefCountObject_dtor \<lparr>m_obj = Some 0\<rparr> \<lparr>m_obj = Some 0\<rparr> (mem (many_handles 1))
       = Inr (\<lparr>m_obj = Some 0\<rparr>,
              \<lparr>objects = [Some \<lparr>m_refs = 1\<rparr>], calls = [CallAddRef 0, CallAddRef 0, CallRelease 0]\<rparr>)
   \<and> Ref_step (AssignRef 0 0) (many_handles 1)
       = Inr \<lparr>mem = \<lparr>objects = [Some \<lparr>m_refs = 1\<rparr>],
                     calls = [CallAddRef 0, CallAddRef 0, CallRelease 0]\<rparr>,
              handles = [Some \<lparr>m_obj = Some 0\<rparr>]\<rparr>"
proof -
  let ?r = "\<lparr>m_obj = Some 0\<rparr>"
  note inst = Ref_self_assign [of ?r "mem (many_handles 1)" RefCountObject_dtor
               "many_handles 1" 0 "[New, PtrCtor (Some 0)]" "many_handles 1"]
  have run: "run [New, PtrCtor (Some 0)] init_state = Inr (many_handles 1)"
    using run_New_many_handles [of 1] by simp
  have within: "run_within [New, PtrCtor (Some 0)] init_state"
    by (simp add: Ref_step_def new_object_def init_state_def RefCountObject_ctor_def
          Ref_from_ptr_def AddRef_def deref_def store_refs_def log_call_def
          within_INT_MAX_def handle_count_def holds_def INT_MAX_def)
  from inst run within have inv: "ref_inv (many_handles 1)" by blast
  have h: "handle (many_handles 1) 0 = Some ?r"
    by (simp add: handle_def many_handles_def)
  from inst inv h have c: "counted_ref ?r (mem (many_handles 1))" by blast
  from inst c inv h run within show ?thesis
    by (simp add: self_assign_calls_def many_handles_def)
qed

text \<open>
  The claim is made for every handle, and without the condition it fails. One object
  and \<open>2 ^ 32\<close> handles on it are reached from the empty program by handle operations
  only. There \<^verbatim>\<open>m_refs\<close> has wrapped round to 0, so in a self-assignment \<^verbatim>\<open>AddRef\<close> makes
  it 1 and \<^verbatim>\<open>Release\<close>, finding 1, deletes the object, while the \<open>2 ^ 32\<close> handles are
  alive.
\<close>

theorem self_assign_deletes_after_wrap:
  "run (New # replicate 4294967296 (PtrCtor (Some 0))) init_state = Inr (many_handles 4294967296)
   \<and> wf_op (many_handles 4294967296) (AssignRef 0 0)
   \<and> handle (many_handles 4294967296) 0 = Some \<lparr>m_obj = Some 0\<rparr>
   \<and> objects (mem (many_handles 4294967296)) = [Some \<lparr>m_refs = 0\<rparr>]
   \<and> handle_count (many_handles 4294967296) 0 = 4294967296
   \<and> Ref_assign RefCountObject_dtor \<lparr>m_obj = Some 0\<rparr> \<lparr>m_obj = Some 0\<rparr>
         (mem (many_handles 4294967296))
       = Inr (\<lparr>m_obj = Some 0\<rparr>,
              \<lparr>objects = [None],
               calls = replicate 4294967296 (CallAddRef 0) @ [CallAddRef 0, CallRelease 0]\<rparr>)
   \<and> Ref_assign_ptr RefCountObject_dtor \<lparr>m_obj = Some 0\<rparr> (GetPtr \<lparr>m_obj = Some 0\<rparr>)
         (mem (many_handles 4294967296))
       = Inr (\<lparr>m_obj = Some 0\<rparr>,
              \<lparr>objects = [None],
               calls = replicate 4294967296 (CallAddRef 0) @ [CallAddRef 0, CallRelease 0]\<rparr>)
   \<and> Ref_step (AssignRef 0 0) (many_handles 4294967296)
       = Inr \<lparr>mem = \<lparr>objects = [None],
                     calls = replicate 4294967296 (CallAddRef 0) @ [CallAddRef 0, CallRelease 0]\<rparr>,
              handles = replicate 4294967296 (Some \<lparr>m_obj = Some 0\<rparr>)\<rparr>"
proof -
  let ?r = "\<lparr>m_obj = Some 0\<rparr>"
  let ?m = "\<lparr>objects = [None],
             calls = replicate 4294967296 (CallAddRef 0) @ [CallAddRef 0, CallRelease 0]\<rparr>"
  have 1: "run (New # replicate 4294967296 (PtrCtor (Some 0))) init_state
             = Inr (many_handles 4294967296)"
    by (rule run_New_many_handles)
  have 3: "handle (many_handles 4294967296) 0 = Some ?r"
    by (simp add: handle_def many_handles_def)
  then have 2: "wf_op (many_handles 4294967296) (AssignRef 0 0)"
    by (simp add: wf_op_def)
  have 4: "objects (mem (many_handles 4294967296)) = [Some \<lparr>m_refs = 0\<rparr>]"
    by (simp add: many_handles_def)
  have 5: "handle_count (many_handles 4294967296) 0 = 4294967296"
    by (rule handle_count_many_handles)
  have 7: "Ref_assign_ptr RefCountObject_dtor ?r (GetPtr ?r) (mem (many_handles 4294967296))
             = Inr (?r, ?m)"
    by (simp add: many_handles_def Ref_assign_ptr_def GetPtr_def AddRef_def Release_def
          deref_def store_refs_def log_call_def delete_this_RefCountObject_dtor)
  then have 6: "Ref_assign RefCountObject_dtor ?r ?r (mem (many_handles 4294967296))
                  = Inr (?r, ?m)"
    by (simp add: Ref_assign_eq GetPtr_def)
  have "(replicate 4294967296 (Some ?r))[0 := Some ?r] = replicate 4294967296 (Some ?r)"
    by (rule list_update_id [of "replicate 4294967296 (Some ?r)" 0, simplified])
  then have 8: "Ref_step (AssignRef 0 0) (many_handles 4294967296)
      = Inr \<lparr>mem = ?m, handles = replicate 4294967296 (Some ?r)\<rparr>"
    using 3 6 by (simp add: Ref_step_def) (simp add: many_handles_def)
  from 1 2 3 4 5 6 7 8 show ?thesis by (intro conjI)
qed

section \<open>Null handles\<close>

lemma AddRef_not_null: "p \<noteq> None \<Longrightarrow> AddRef p m \<noteq> Inl NullDereference"
  by (auto simp: AddRef_def deref_def split: option.splits sum.splits)

lemma Release_not_null:
  "p \<noteq> None \<Longrightarrow> Release RefCountObject_dtor p m \<noteq> Inl NullDereference"
  by (auto simp: Release_def deref_def Let_def delete_this_RefCountObject_dtor
           split: option.splits sum.splits)

lemma Ref_assign_ptr_not_null:
  "Ref_assign_ptr RefCountObject_dtor r obj m \<noteq> Inl NullDereference"
  using AddRef_not_null [of obj m] Release_not_null [of "m_obj r"]
  by (auto simp: Ref_assign_ptr_def Let_def split: sum.splits if_splits)

text \<open>
  Claim C9, as the code has it. A default-constructed handle holds \<^verbatim>\<open>NULL\<close>.
  Constructing a handle from \<^verbatim>\<open>NULL\<close>, copying a null handle, assigning a null handle or
  \<^verbatim>\<open>NULL\<close> to a null handle and destroying a null handle return normally with the
  memory, and so the record of calls, unchanged: no \<^verbatim>\<open>AddRef\<close> and no \<^verbatim>\<open>Release\<close> is
  called. Where only one side of an assignment is null, no call is made for the null
  side: assigning to a null handle does what the corresponding constructor does, and
  assigning null does to the memory what the destructor does. All this is so whatever the
  destructor of \<^verbatim>\<open>T\<close> is. No constructor, assignment or destructor ever calls through a
  null pointer, whatever its operands: none of them ends in a null dereference (stated
  with the destructor of \<^verbatim>\<open>RefCountObject\<close> for the objects, so that the operation
  itself is the only possible origin of the fault). \<^verbatim>\<open>operator!\<close>
  is true exactly when the wrapped pointer is \<^verbatim>\<open>NULL\<close>; \<^verbatim>\<open>GetPtr\<close>, \<^verbatim>\<open>operator->\<close> and
  the conversion to \<^verbatim>\<open>T*\<close> return the wrapped pointer. \<^verbatim>\<open>operator*\<close> is the one
  operation that is not total on a null handle: it dereferences the wrapped pointer.
\<close>

theorem Ref_null_handle:
  "m_obj Ref_default = None
   \<and> Ref_from_ptr None m = Inr (\<lparr>m_obj = None\<rparr>, m)
   \<and> Ref_copy \<lparr>m_obj = None\<rparr> m = Inr (\<lparr>m_obj = None\<rparr>, m)
   \<and> Ref_assign dtor \<lparr>m_obj = None\<rparr> \<lparr>m_obj = None\<rparr> m = Inr (\<lparr>m_obj = None\<rparr>, m)
   \<and> Ref_assign_ptr dtor \<lparr>m_obj = None\<rparr> None m = Inr (\<lparr>m_obj = None\<rparr>, m)
   \<and> Ref_dtor dtor \<lparr>m_obj = None\<rparr> m = Inr m
   \<and> Ref_assign dtor \<lparr>m_obj = None\<rparr> src m = Ref_copy src m
   \<and> Ref_assign_ptr dtor \<lparr>m_obj = None\<rparr> obj m = Ref_from_ptr obj m
   \<and> Ref_assign dtor r \<lparr>m_obj = None\<rparr> m =
        (case Ref_dtor dtor r m of Inl e \<Rightarrow> Inl e | Inr m1 \<Rightarrow> Inr (\<lparr>m_obj = None\<rparr>, m1))
   \<and> Ref_assign_ptr dtor r None m =
        (case Ref_dtor dtor r m of Inl e \<Rightarrow> Inl e | Inr m1 \<Rightarrow> Inr (\<lparr>m_obj = None\<rparr>, m1))
   \<and> Ref_from_ptr obj m \<noteq> Inl NullDereference
   \<and> Ref_copy src m \<noteq> Inl NullDereference
   \<and> Ref_assign RefCountObject_dtor r src m \<noteq> Inl NullDereference
   \<and> Ref_assign_ptr RefCountObject_dtor r obj m \<noteq> Inl NullDereference
   \<and> Ref_dtor RefCountObject_dtor r m \<noteq> Inl NullDereference
   \<and> operator_not r = (m_obj r = None)
   \<and> GetPtr r = m_obj r
   \<and> operator_T_ptr r = m_obj r
   \<and> operator_arrow r = m_obj r
   \<and> operator_star \<lparr>m_obj = None\<rparr> m = Inl NullDereference"
proof -
  have 1: "m_obj Ref_default = None" by (simp add: Ref_default_def)
  have 2: "Ref_from_ptr None m = Inr (\<lparr>m_obj = None\<rparr>, m)" by (simp add: Ref_from_ptr_def)
  have 3: "Ref_copy \<lparr>m_obj = None\<rparr> m = Inr (\<lparr>m_obj = None\<rparr>, m)" by (simp add: Ref_copy_def)
  have 4: "Ref_assign dtor \<lparr>m_obj = None\<rparr> \<lparr>m_obj = None\<rparr> m = Inr (\<lparr>m_obj = None\<rparr>, m)"
    by (simp add: Ref_assign_def)
  have 5: "Ref_assign_ptr dtor \<lparr>m_obj = None\<rparr> None m = Inr (\<lparr>m_obj = None\<rparr>, m)"
    by (simp add: Ref_assign_ptr_def)
  have 6: "Ref_dtor dtor \<lparr>m_obj = None\<rparr> m = Inr m" by (simp add: Ref_dtor_def)
  have 7: "Ref_assign dtor \<lparr>m_obj = None\<rparr> src m = Ref_copy src m"
    by (simp add: Ref_assign_def Ref_copy_def Let_def split: sum.splits)
  have 8: "Ref_assign_ptr dtor' \<lparr>m_obj = None\<rparr> obj m = Ref_from_ptr obj m" for dtor'
    by (simp add: Ref_assign_ptr_def Ref_from_ptr_def Let_def split: sum.splits)
  have 9: "Ref_assign dtor r \<lparr>m_obj = None\<rparr> m =
        (case Ref_dtor dtor r m of Inl e \<Rightarrow> Inl e | Inr m1 \<Rightarrow> Inr (\<lparr>m_obj = None\<rparr>, m1))"
    by (cases r) (simp add: Ref_assign_def Ref_dtor_def Let_def split: sum.splits)
  have 10: "Ref_assign_ptr dtor r None m =
        (case Ref_dtor dtor r m of Inl e \<Rightarrow> Inl e | Inr m1 \<Rightarrow> Inr (\<lparr>m_obj = None\<rparr>, m1))"
    by (cases r) (simp add: Ref_assign_ptr_def Ref_dtor_def Let_def split: sum.splits)
  have 11: "Ref_from_ptr obj m \<noteq> Inl NullDereference"
    using Ref_assign_ptr_not_null [of "\<lparr>m_obj = None\<rparr>" obj m] unfolding 8 .
  have "Ref_copy src m = Ref_assign_ptr RefCountObject_dtor \<lparr>m_obj = None\<rparr> (m_obj src) m"
    by (simp add: Ref_assign_ptr_def Ref_copy_def Let_def split: sum.splits)
  then have 12: "Ref_copy src m \<noteq> Inl NullDereference"
    by (simp only: Ref_assign_ptr_not_null not_False_eq_True)
  have "Ref_assign RefCountObject_dtor r src m = Ref_assign_ptr RefCountObject_dtor r (m_obj src) m"
    by (simp add: Ref_assign_def Ref_assign_ptr_def)
  then have 13: "Ref_assign RefCountObject_dtor r src m \<noteq> Inl NullDereference"
    by (simp only: Ref_assign_ptr_not_null not_False_eq_True)
  have 14: "Ref_assign_ptr RefCountObject_dtor r obj m \<noteq> Inl NullDereference"
    by (rule Ref_assign_ptr_not_null)
  have 15: "Ref_dtor RefCountObject_dtor r m \<noteq> Inl NullDereference"
    using Release_not_null [of "m_obj r" m] by (simp add: Ref_dtor_def)
  have 16: "operator_not r = (m_obj r = None)" by (simp add: operator_not_def)
  have 17: "GetPtr r = m_obj r" by (simp add: GetPtr_def)
  have 18: "operator_T_ptr r = m_obj r" by (simp add: operator_T_ptr_def)
  have 19: "operator_arrow r = m_obj r" by (simp add: operator_arrow_def)
  have 20: "operator_star \<lparr>m_obj = None\<rparr> m = Inl NullDereference"
    by (simp add: operator_star_def deref_def)
  from 1 2 3 4 5 6 7 8 [of dtor] 9 10 11 12 13 14 15 16 17 18 19 20 show ?thesis by (intro conjI)
qed

text \<open>
  The claim says that all operations are total on a null handle. \<^verbatim>\<open>operator*\<close> is not:
  on a default-constructed handle, \<^verbatim>\<open>return *m_obj;\<close> dereferences \<^verbatim>\<open>NULL\<close>.
\<close>

theorem operator_star_null_handle:
  "m_obj Ref_default = None
   \<and> operator_star Ref_default \<lparr>objects = [], calls = []\<rparr> = Inl NullDereference"
  by (simp add: Ref_default_def operator_star_def deref_def)

section \<open>Value semantics of \<^verbatim>\<open>DataBuffer\<close>\<close>

lemma buffer_at_valid:
  "buffer_at p c = Inr (h, bs) \<longleftrightarrow> p = Some h \<and> h < length (buffers c) \<and> buffers c ! h = Some bs"
  by (auto simp: buffer_at_def split: option.splits if_splits)

lemma buffer_at_update_other:
  assumes "buffer_at q c = Inr (k, ds)" and "k \<noteq> h"
  shows "buffer_at q (c\<lparr>buffers := (buffers c)[h := x]\<rparr>) = Inr (k, ds)"
  using assms by (simp add: buffer_at_valid)

lemma buffer_at_append:
  assumes "buffer_at q c = Inr (k, ds)"
  shows "buffer_at q (c\<lparr>buffers := buffers c @ [x]\<rparr>) = Inr (k, ds)"
  using assms by (simp add: buffer_at_valid nth_append)

text \<open>
  Copy construction gives a buffer with the length and contents of its source, on a
  handle of its own, and leaves the source as it was.
\<close>

lemma DataBuffer_copy_value:
  assumes b: "buffer_at (m_buffer b) c = Inr (h, bs)"
  shows "\<exists>b1 c1. DataBuffer_copy b c = Inr (b1, c1)
           \<and> GetData b1 c1 = Inr bs \<and> GetLength b1 c1 = Inr (length bs)
           \<and> GetData b c1 = Inr bs \<and> GetLength b c1 = Inr (length bs)
           \<and> m_buffer b1 \<noteq> m_buffer b"
proof -
  let ?c1 = "c\<lparr>buffers := buffers c @ [Some bs]\<rparr>"
  let ?b1 = "\<lparr>m_buffer = Some (length (buffers c))\<rparr>"
  have 1: "DataBuffer_copy b c = Inr (?b1, ?c1)"
    using b by (simp add: DataBuffer_copy_def BNDuplicateDataBuffer_def BNCreateDataBuffer_def)
  have 2: "buffer_at (m_buffer ?b1) ?c1 = Inr (length (buffers c), bs)"
    by (simp add: buffer_at_valid)
  have 3: "buffer_at (m_buffer b) ?c1 = Inr (h, bs)"
    by (rule buffer_at_append [OF b])
  have 4: "m_buffer ?b1 \<noteq> m_buffer b"
    using b by (auto simp: buffer_at_valid)
  from 1 2 3 4 show ?thesis
    by (simp add: GetData_def GetLength_def BNGetDataBufferContents_def BNGetDataBufferLength_def)
qed

text \<open>
  A mutation (\<^verbatim>\<open>SetSize\<close>, \<^verbatim>\<open>Clear\<close>, \<^verbatim>\<open>Append\<close>, \<^verbatim>\<open>AppendByte\<close>, a write through
  \<^verbatim>\<open>operator[]\<close>) of one buffer leaves every buffer on another handle unchanged.
\<close>

lemma mutate_frame:
  assumes q: "buffer_at q c = Inr (k, ds)"
    and ne: "m_buffer this \<noteq> q"
    and mu: "mutate mu this c = Inr c1"
  shows "buffer_at q c1 = Inr (k, ds)"
proof (cases "buffer_at (m_buffer this) c")
  case (Inl e)
  then have "mutate mu this c = Inl e \<or> (\<exists>e'. mutate mu this c = Inl e')"
    by (cases mu)
       (auto simp: mutate_def SetSize_def Clear_def Append_def Append_buffer_def AppendByte_def
          operator_index_write_def BNSetDataBufferLength_def BNClearDataBuffer_def
          BNAppendDataBufferContents_def BNAppendDataBuffer_def split: sum.splits)
  with mu show ?thesis by auto
next
  case (Inr r)
  then obtain h bs where r: "buffer_at (m_buffer this) c = Inr (h, bs)" by (cases r) auto
  then have hk: "k \<noteq> h" using q ne by (auto simp: buffer_at_valid)
  have "\<exists>x. c1 = c\<lparr>buffers := (buffers c)[h := x]\<rparr>"
    using mu r
    by (cases mu)
       (auto simp: mutate_def SetSize_def Clear_def Append_def Append_buffer_def AppendByte_def
          operator_index_write_def BNSetDataBufferLength_def BNClearDataBuffer_def
          BNAppendDataBufferContents_def BNAppendDataBuffer_def
          split: sum.splits if_splits)
  then show ?thesis using buffer_at_update_other [OF q hk] by auto
qed

text \<open>
  So a copy is independent of its source: after the copy, a mutation of the source
  leaves the length and contents of the copy unchanged, and a mutation of the copy
  leaves those of the source unchanged.
\<close>

lemma DataBuffer_copy_independent:
  assumes b: "buffer_at (m_buffer b) c = Inr (h, bs)"
    and cp: "DataBuffer_copy b c = Inr (b1, c1)"
  shows "mutate mu b c1 = Inr c2 \<Longrightarrow>
           GetData b1 c2 = Inr bs \<and> GetLength b1 c2 = Inr (length bs)"
    and "mutate mu b1 c1 = Inr c2 \<Longrightarrow>
           GetData b c2 = Inr bs \<and> GetLength b c2 = Inr (length bs)"
proof -
  from cp b have b1: "m_buffer b1 = Some (length (buffers c))"
    and c1: "c1 = c\<lparr>buffers := buffers c @ [Some bs]\<rparr>"
    by (auto simp: DataBuffer_copy_def BNDuplicateDataBuffer_def BNCreateDataBuffer_def)
  have at_b1: "buffer_at (m_buffer b1) c1 = Inr (length (buffers c), bs)"
    by (simp add: b1 c1 buffer_at_valid)
  have at_b: "buffer_at (m_buffer b) c1 = Inr (h, bs)"
    unfolding c1 by (rule buffer_at_append [OF b])
  have ne: "m_buffer b \<noteq> m_buffer b1"
    using b b1 by (auto simp: buffer_at_valid)
  show "GetData b1 c2 = Inr bs \<and> GetLength b1 c2 = Inr (length bs)"
    if "mutate mu b c1 = Inr c2"
    using mutate_frame [OF at_b1 ne that]
    by (simp add: GetData_def GetLength_def BNGetDataBufferContents_def
          BNGetDataBufferLength_def)
  show "GetData b c2 = Inr bs \<and> GetLength b c2 = Inr (length bs)"
    if "mutate mu b1 c1 = Inr c2"
    using mutate_frame [OF at_b ne [symmetric] that]
    by (simp add: GetData_def GetLength_def BNGetDataBufferContents_def
          BNGetDataBufferLength_def)
qed

text \<open>
  Copy assignment between two different buffers gives the target the length and contents
  of the source, on a handle of its own, and leaves the source as it was.
\<close>

lemma DataBuffer_assign_value:
  assumes a: "buffer_at (m_buffer a) c = Inr (ha, as)"
    and b: "buffer_at (m_buffer b) c = Inr (hb, bs)"
    and ne: "m_buffer a \<noteq> m_buffer b"
  shows "\<exists>a1 c1. DataBuffer_assign a b c = Inr (a1, c1)
           \<and> GetData a1 c1 = Inr bs \<and> GetLength a1 c1 = Inr (length bs)
           \<and> GetData b c1 = Inr bs \<and> GetLength b c1 = Inr (length bs)
           \<and> m_buffer a1 \<noteq> m_buffer b"
proof -
  let ?c0 = "c\<lparr>buffers := (buffers c)[ha := None]\<rparr>"
  have hne: "hb \<noteq> ha" using a b ne by (auto simp: buffer_at_valid)
  have f: "BNFreeDataBuffer (m_buffer a) c = Inr ?c0"
    using a by (simp add: BNFreeDataBuffer_def)
  have b0: "buffer_at (m_buffer b) ?c0 = Inr (hb, bs)"
    by (rule buffer_at_update_other [OF b hne])
  from DataBuffer_copy_value [OF b0] obtain b1 c1 where
    cp: "DataBuffer_copy b ?c0 = Inr (b1, c1)"
    and r: "GetData b1 c1 = Inr bs" "GetLength b1 c1 = Inr (length bs)"
           "GetData b c1 = Inr bs" "GetLength b c1 = Inr (length bs)"
           "m_buffer b1 \<noteq> m_buffer b"
    by blast
  have "DataBuffer_assign a b c = Inr (a\<lparr>m_buffer := m_buffer b1\<rparr>, c1)"
    using f cp
    by (auto simp: DataBuffer_assign_def DataBuffer_copy_def split: sum.splits)
  moreover have "GetData (a\<lparr>m_buffer := m_buffer b1\<rparr>) c1 = GetData b1 c1"
      "GetLength (a\<lparr>m_buffer := m_buffer b1\<rparr>) c1 = GetLength b1 c1"
    by (simp_all add: GetData_def GetLength_def)
  ultimately show ?thesis using r by auto
qed

text \<open>
  Copy assignment of a buffer to itself frees the buffer and then asks the core to
  duplicate the buffer it has just freed.
\<close>

lemma DataBuffer_self_assign:
  assumes b: "buffer_at (m_buffer b) c = Inr (h, bs)"
  shows "DataBuffer_assign b b c = Inl UseAfterFree"
proof -
  have "BNFreeDataBuffer (m_buffer b) c = Inr (c\<lparr>buffers := (buffers c)[h := None]\<rparr>)"
    using b by (simp add: BNFreeDataBuffer_def)
  moreover have "buffer_at (m_buffer b) (c\<lparr>buffers := (buffers c)[h := None]\<rparr>) = Inl UseAfterFree"
    using b by (auto simp: buffer_at_valid) (simp add: buffer_at_def)
  ultimately show ?thesis
    by (simp add: DataBuffer_assign_def BNDuplicateDataBuffer_def)
qed

text \<open>
  Claim C6 says that, for every \<^verbatim>\<open>DataBuffer b\<close>, copy construction and copy assignment
  produce a buffer equal in length and contents to \<open>b\<close> and independent of it. The lemmas
  above establish this for copy construction and for assignment between two different
  buffers. For the assignment \<^verbatim>\<open>b = b\<close> the code does otherwise: with \<open>b\<close> the one-byte
  buffer made by \<^verbatim>\<open>DataBuffer(data, 1)\<close>, \<^verbatim>\<open>operator=\<close> calls \<^verbatim>\<open>BNFreeDataBuffer\<close> on
  \<^verbatim>\<open>m_buffer\<close> and then \<^verbatim>\<open>BNDuplicateDataBuffer\<close> on the same handle, a use of the
  freed buffer, and no buffer equal to \<open>b\<close> results.
\<close>

theorem DataBuffer_self_assign_faults:
  "DataBuffer_data [65] \<lparr>buffers = []\<rparr> = (\<lparr>m_buffer = Some 0\<rparr>, \<lparr>buffers = [Some [65]]\<rparr>)
   \<and> GetData \<lparr>m_buffer = Some 0\<rparr> \<lparr>buffers = [Some [65]]\<rparr> = Inr [65]
   \<and> DataBuffer_assign \<lparr>m_buffer = Some 0\<rparr> \<lparr>m_buffer = Some 0\<rparr> \<lparr>buffers = [Some [65]]\<rparr>
       = Inl UseAfterFree"
  by (simp add: DataBuffer_data_def BNCreateDataBuffer_def GetData_def BNGetDataBufferContents_def
        DataBuffer_assign_def BNFreeDataBuffer_def BNDuplicateDataBuffer_def buffer_at_def)

section \<open>Bounds checks and the cursor of \<^verbatim>\<open>BinaryReader\<close> and \<^verbatim>\<open>BinaryWriter\<close>\<close>

lemma core_read_Some_iff:
  "core_read c s = Some r \<longleftrightarrow>
     in_bounds (read_size c) s \<and>
     r = (decode c (m_endian s) (take (read_size c) (drop (unat (m_offset s)) (m_data s))),
          s\<lparr>m_offset := m_offset s + of_nat (read_size c)\<rparr>)"
  by (auto simp: core_read_def BNReadData_def)

lemma core_read_None_iff: "core_read c s = None \<longleftrightarrow> \<not> in_bounds (read_size c) s"
  by (simp add: core_read_def BNReadData_def)

lemma length_le_bytes [simp]: "length (le_bytes n v) = n"
  by (induction n arbitrary: v) simp_all

lemma length_encode: "length (encode c e) = write_size c"
  by (cases c; cases e) (simp_all add: write_size_def int_bytes_def)

lemma core_write_Some_iff:
  "core_write c s = Some s1 \<longleftrightarrow>
     in_bounds (write_size c) s \<and>
     s1 = s\<lparr>m_data := take (unat (m_offset s)) (m_data s) @ encode c (m_endian s)
                         @ drop (unat (m_offset s) + write_size c) (m_data s),
             m_offset := m_offset s + of_nat (write_size c)\<rparr>"
  by (auto simp: core_write_def BNWriteData_def length_encode)

lemma core_write_None_iff: "core_write c s = None \<longleftrightarrow> \<not> in_bounds (write_size c) s"
  by (simp add: core_write_def BNWriteData_def length_encode)

lemma le_bytes_numeral [simp]:
  "le_bytes (numeral k) v = of_nat (v mod 256) # le_bytes (pred_numeral k) (v div 256)"
  unfolding numeral_eq_Suc [of k] by (rule le_bytes.simps)

text \<open>
  Claim C3. Every read operation of \<^verbatim>\<open>BinaryReader\<close> (\<^verbatim>\<open>Read\<close>, \<^verbatim>\<open>ReadString\<close>,
  \<^verbatim>\<open>Read8\<close> to \<^verbatim>\<open>Read64\<close> and the \<^verbatim>\<open>LE\<close> and \<^verbatim>\<open>BE\<close> variants) is bounds-checked
  against the data of the view: when the requested range is not fully available, the
  operation throws \<^verbatim>\<open>ReadException\<close>, whose \<^verbatim>\<open>what()\<close> is \<^verbatim>\<open>"read out of bounds"\<close>, and
  its \<^verbatim>\<open>TryRead\<close> variant returns false without throwing; when the range is available
  both succeed with the same result; and a \<^verbatim>\<open>TryRead\<close> variant returns true exactly when
  the read succeeds.
\<close>

theorem BinaryReader_bounds_checked:
  "(\<not> in_bounds (read_size c) s \<longrightarrow>
      BinaryReader_read c s = Inl ReadException \<and> BinaryReader_try c dest s = (False, dest, s))
   \<and> (in_bounds (read_size c) s \<longrightarrow>
      (\<exists>r. BinaryReader_read c s = Inr r \<and> BinaryReader_try c dest s = (True, r)))
   \<and> (fst (BinaryReader_try c dest s) \<longleftrightarrow> (\<exists>r. BinaryReader_read c s = Inr r))
   \<and> ReadException_what ReadException = ''read out of bounds''"
proof (cases "core_read c s")
  case None
  then show ?thesis
    using core_read_None_iff [of c s]
    by (simp add: BinaryReader_read_def BinaryReader_try_def ReadException_what_def)
next
  case (Some r)
  then show ?thesis
    using core_read_None_iff [of c s]
    by (cases r) (simp add: BinaryReader_read_def BinaryReader_try_def ReadException_what_def)
qed

theorem BinaryReader_bounds_checked_witness:
  "\<not> in_bounds (read_size Read16) \<lparr>m_data = [1, 2], m_offset = 1, m_endian = LittleEndian\<rparr>
   \<and> BinaryReader_read Read16 \<lparr>m_data = [1, 2], m_offset = 1, m_endian = LittleEndian\<rparr>
       = Inl ReadException
   \<and> BinaryReader_try Read16 (UInt16 0) \<lparr>m_data = [1, 2], m_offset = 1, m_endian = LittleEndian\<rparr>
       = (False, UInt16 0, \<lparr>m_data = [1, 2], m_offset = 1, m_endian = LittleEndian\<rparr>)
   \<and> in_bounds (read_size Read8) \<lparr>m_data = [1, 2], m_offset = 1, m_endian = LittleEndian\<rparr>
   \<and> BinaryReader_read Read8 \<lparr>m_data = [1, 2], m_offset = 1, m_endian = LittleEndian\<rparr>
       = Inr (UInt8 2, \<lparr>m_data = [1, 2], m_offset = 2, m_endian = LittleEndian\<rparr>)"
proof -
  let ?s = "\<lparr>m_data = [1, 2], m_offset = 1, m_endian = LittleEndian\<rparr>"
  have out: "\<not> in_bounds (read_size Read16) ?s" by (simp add: in_bounds_def)
  have inb: "in_bounds (read_size Read8) ?s" by (simp add: in_bounds_def)
  have r8: "BinaryReader_read Read8 ?s
              = Inr (UInt8 2, \<lparr>m_data = [1, 2], m_offset = 2, m_endian = LittleEndian\<rparr>)"
    by (simp add: BinaryReader_read_def core_read_def BNReadData_def in_bounds_def int_value_def)
  from BinaryReader_bounds_checked [of Read16 ?s "UInt16 0"] out
  have "BinaryReader_read Read16 ?s = Inl ReadException
        \<and> BinaryReader_try Read16 (UInt16 0) ?s = (False, UInt16 0, ?s)"
    by blast
  with out inb r8 show ?thesis by simp
qed

text \<open>
  Claim C4. Every write operation of \<^verbatim>\<open>BinaryWriter\<close> (\<^verbatim>\<open>Write\<close>, \<^verbatim>\<open>Write8\<close> to
  \<^verbatim>\<open>Write64\<close> and the \<^verbatim>\<open>LE\<close> and \<^verbatim>\<open>BE\<close> variants) is bounds-checked against the data
  of the view: when the target range cannot be fully written, the operation throws
  \<^verbatim>\<open>WriteException\<close>, whose \<^verbatim>\<open>what()\<close> is \<^verbatim>\<open>"write out of bounds"\<close>, and its
  \<^verbatim>\<open>TryWrite\<close> variant returns false without throwing; when the range can be written
  both succeed with the same effect; and a \<^verbatim>\<open>TryWrite\<close> variant returns true exactly
  when the write succeeds.
\<close>

theorem BinaryWriter_bounds_checked:
  "(\<not> in_bounds (write_size c) s \<longrightarrow>
      BinaryWriter_write c s = Inl WriteException \<and> BinaryWriter_try c s = (False, s))
   \<and> (in_bounds (write_size c) s \<longrightarrow>
      (\<exists>s1. BinaryWriter_write c s = Inr s1 \<and> BinaryWriter_try c s = (True, s1)))
   \<and> (fst (BinaryWriter_try c s) \<longleftrightarrow> (\<exists>s1. BinaryWriter_write c s = Inr s1))
   \<and> WriteException_what WriteException = ''write out of bounds''"
proof (cases "core_write c s")
  case None
  then show ?thesis
    using core_write_None_iff [of c s]
    by (simp add: BinaryWriter_write_def BinaryWriter_try_def WriteException_what_def)
next
  case (Some s1)
  then show ?thesis
    using core_write_None_iff [of c s]
    by (simp add: BinaryWriter_write_def BinaryWriter_try_def WriteException_what_def)
qed

theorem BinaryWriter_bounds_checked_witness:
  "\<not> in_bounds (write_size (Write16 258)) \<lparr>m_data = [1, 2], m_offset = 1, m_endian = BigEndian\<rparr>
   \<and> BinaryWriter_write (Write16 258) \<lparr>m_data = [1, 2], m_offset = 1, m_endian = BigEndian\<rparr>
       = Inl WriteException
   \<and> BinaryWriter_try (Write16 258) \<lparr>m_data = [1, 2], m_offset = 1, m_endian = BigEndian\<rparr>
       = (False, \<lparr>m_data = [1, 2], m_offset = 1, m_endian = BigEndian\<rparr>)
   \<and> in_bounds (write_size (Write16 258)) \<lparr>m_data = [1, 2], m_offset = 0, m_endian = BigEndian\<rparr>
   \<and> BinaryWriter_write (Write16 258) \<lparr>m_data = [1, 2], m_offset = 0, m_endian = BigEndian\<rparr>
       = Inr \<lparr>m_data = [1, 2], m_offset = 2, m_endian = BigEndian\<rparr>
   \<and> BinaryWriter_write (Write16 258) \<lparr>m_data = [1, 2], m_offset = 0, m_endian = LittleEndian\<rparr>
       = Inr \<lparr>m_data = [2, 1], m_offset = 2, m_endian = LittleEndian\<rparr>"
proof -
  let ?s = "\<lparr>m_data = [1, 2], m_offset = 1, m_endian = BigEndian\<rparr>"
  have out: "\<not> in_bounds (write_size (Write16 258)) ?s"
    by (simp add: in_bounds_def write_size_def int_bytes_def)
  have inb: "in_bounds (write_size (Write16 258)) \<lparr>m_data = [1, 2], m_offset = 0, m_endian = BigEndian\<rparr>"
    by (simp add: in_bounds_def write_size_def int_bytes_def)
  have w: "BinaryWriter_write (Write16 258) \<lparr>m_data = [1, 2], m_offset = 0, m_endian = BigEndian\<rparr>
             = Inr \<lparr>m_data = [1, 2], m_offset = 2, m_endian = BigEndian\<rparr>"
    by (simp add: BinaryWriter_write_def core_write_def BNWriteData_def in_bounds_def
          int_bytes_def)
  have w2: "BinaryWriter_write (Write16 258) \<lparr>m_data = [1, 2], m_offset = 0, m_endian = LittleEndian\<rparr>
             = Inr \<lparr>m_data = [2, 1], m_offset = 2, m_endian = LittleEndian\<rparr>"
    by (simp add: BinaryWriter_write_def core_write_def BNWriteData_def in_bounds_def
          int_bytes_def)
  from BinaryWriter_bounds_checked [of "Write16 258" ?s] out
  have "BinaryWriter_write (Write16 258) ?s = Inl WriteException
        \<and> BinaryWriter_try (Write16 258) ?s = (False, ?s)"
    by blast
  with out inb w w2 show ?thesis by simp
qed

lemma unat_advance:
  assumes "unat (x :: 64 word) + n \<le> len" and "len < 2 ^ 64"
  shows "unat (x + of_nat n) = unat x + n"
proof -
  have "unat (x + of_nat n) = (unat x + n) mod 2 ^ 64"
    by (simp add: unat_word_ariths unat_of_nat mod_add_right_eq)
  then show ?thesis using assms by simp
qed

text \<open>
  Claim C5. Readers and writers are sequential cursors: \<^verbatim>\<open>Seek(o)\<close> makes \<^verbatim>\<open>GetOffset()\<close>
  return \<open>o\<close>; \<^verbatim>\<open>SeekRelative(d)\<close> changes \<^verbatim>\<open>GetOffset()\<close> by exactly \<open>d\<close>; every
  successful read or write of \<open>n\<close> bytes advances \<^verbatim>\<open>GetOffset()\<close> by exactly \<open>n\<close> (as
  64-bit values, and as numbers for a view shorter than \<open>2 ^ 64\<close> bytes); a read or write
  fails exactly when the range of that size at the cursor position is not inside the
  data, and a failed \<^verbatim>\<open>Try\<close> operation leaves the stream where it was; and
  \<^verbatim>\<open>IsEndOfFile()\<close> is true exactly when the cursor is at or past the end of the data.
\<close>

theorem cursor_sequential:
  "GetOffset (Seek pos s) = pos
   \<and> GetOffset (SeekRelative delta s) = GetOffset s + delta
   \<and> (BinaryReader_read c s = Inr (r, s1) \<longrightarrow>
        GetOffset s1 = GetOffset s + of_nat (read_size c)
        \<and> (length (m_data s) < 2 ^ 64 \<longrightarrow> unat (GetOffset s1) = unat (GetOffset s) + read_size c))
   \<and> (BinaryReader_try c dest s = (True, r, s1) \<longrightarrow>
        GetOffset s1 = GetOffset s + of_nat (read_size c))
   \<and> (BinaryWriter_write w s = Inr s2 \<longrightarrow>
        GetOffset s2 = GetOffset s + of_nat (write_size w)
        \<and> (length (m_data s) < 2 ^ 64 \<longrightarrow> unat (GetOffset s2) = unat (GetOffset s) + write_size w))
   \<and> (BinaryWriter_try w s = (True, s2) \<longrightarrow>
        GetOffset s2 = GetOffset s + of_nat (write_size w))
   \<and> (BinaryReader_read c s = Inl ReadException \<longleftrightarrow>
        \<not> unat (GetOffset s) + read_size c \<le> length (m_data s))
   \<and> (BinaryWriter_write w s = Inl WriteException \<longleftrightarrow>
        \<not> unat (GetOffset s) + write_size w \<le> length (m_data s))
   \<and> (\<not> fst (BinaryReader_try c dest s) \<longleftrightarrow>
        \<not> unat (GetOffset s) + read_size c \<le> length (m_data s))
   \<and> (\<not> fst (BinaryWriter_try w s) \<longleftrightarrow>
        \<not> unat (GetOffset s) + write_size w \<le> length (m_data s))
   \<and> (\<not> fst (BinaryReader_try c dest s) \<longrightarrow> BinaryReader_try c dest s = (False, dest, s))
   \<and> (\<not> fst (BinaryWriter_try w s) \<longrightarrow> BinaryWriter_try w s = (False, s))
   \<and> (IsEndOfFile s \<longleftrightarrow> length (m_data s) \<le> unat (GetOffset s))"
proof -
  have 1: "GetOffset (Seek pos s) = pos" by (simp add: GetOffset_def Seek_def)
  have 2: "GetOffset (SeekRelative delta s) = GetOffset s + delta"
    by (simp add: GetOffset_def SeekRelative_def)
  have 3: "BinaryReader_read c s = Inr (r, s1) \<longrightarrow>
        GetOffset s1 = GetOffset s + of_nat (read_size c)
        \<and> (length (m_data s) < 2 ^ 64 \<longrightarrow> unat (GetOffset s1) = unat (GetOffset s) + read_size c)"
    by (auto simp: BinaryReader_read_def core_read_Some_iff GetOffset_def in_bounds_def
          unat_advance split: option.splits)
  have 4: "BinaryReader_try c dest s = (True, r, s1) \<longrightarrow>
        GetOffset s1 = GetOffset s + of_nat (read_size c)"
    by (auto simp: BinaryReader_try_def core_read_Some_iff GetOffset_def split: option.splits)
  have 5: "BinaryWriter_write w s = Inr s2 \<longrightarrow>
        GetOffset s2 = GetOffset s + of_nat (write_size w)
        \<and> (length (m_data s) < 2 ^ 64 \<longrightarrow> unat (GetOffset s2) = unat (GetOffset s) + write_size w)"
    by (auto simp: BinaryWriter_write_def core_write_Some_iff GetOffset_def in_bounds_def
          unat_advance split: option.splits)
  have 6: "BinaryWriter_try w s = (True, s2) \<longrightarrow>
        GetOffset s2 = GetOffset s + of_nat (write_size w)"
    by (auto simp: BinaryWriter_try_def core_write_Some_iff GetOffset_def split: option.splits)
  have 7: "BinaryReader_read c s = Inl ReadException \<longleftrightarrow>
        \<not> unat (GetOffset s) + read_size c \<le> length (m_data s)"
    using core_read_None_iff [of c s]
    by (auto simp: BinaryReader_read_def GetOffset_def in_bounds_def split: option.splits)
  have 8: "BinaryWriter_write w s = Inl WriteException \<longleftrightarrow>
        \<not> unat (GetOffset s) + write_size w \<le> length (m_data s)"
    using core_write_None_iff [of w s]
    by (auto simp: BinaryWriter_write_def GetOffset_def in_bounds_def split: option.splits)
  have 9: "\<not> fst (BinaryReader_try c dest s) \<longrightarrow> BinaryReader_try c dest s = (False, dest, s)"
    by (auto simp: BinaryReader_try_def split: option.splits)
  have 10: "\<not> fst (BinaryWriter_try w s) \<longrightarrow> BinaryWriter_try w s = (False, s)"
    by (auto simp: BinaryWriter_try_def split: option.splits)
  have 11: "IsEndOfFile s \<longleftrightarrow> length (m_data s) \<le> unat (GetOffset s)"
    by (simp add: IsEndOfFile_def GetOffset_def)
  have 12: "\<not> fst (BinaryReader_try c dest s) \<longleftrightarrow>
        \<not> unat (GetOffset s) + read_size c \<le> length (m_data s)"
    using core_read_None_iff [of c s]
    by (auto simp: BinaryReader_try_def GetOffset_def in_bounds_def split: option.splits)
  have 13: "\<not> fst (BinaryWriter_try w s) \<longleftrightarrow>
        \<not> unat (GetOffset s) + write_size w \<le> length (m_data s)"
    using core_write_None_iff [of w s]
    by (auto simp: BinaryWriter_try_def GetOffset_def in_bounds_def split: option.splits)
  from 1 2 3 4 5 6 7 8 9 10 11 12 13 show ?thesis by blast
qed

theorem cursor_sequential_witness:
  "BinaryReader_read Read16 \<lparr>m_data = [1, 2, 3], m_offset = 1, m_endian = LittleEndian\<rparr>
     = Inr (UInt16 770, \<lparr>m_data = [1, 2, 3], m_offset = 3, m_endian = LittleEndian\<rparr>)
   \<and> GetOffset \<lparr>m_data = [1, 2, 3], m_offset = 3, m_endian = LittleEndian\<rparr>
     = GetOffset \<lparr>m_data = [1, 2, 3], m_offset = 1, m_endian = LittleEndian\<rparr> + 2
   \<and> IsEndOfFile \<lparr>m_data = [1, 2, 3], m_offset = 3, m_endian = LittleEndian\<rparr>
   \<and> \<not> IsEndOfFile \<lparr>m_data = [1, 2, 3], m_offset = 1, m_endian = LittleEndian\<rparr>"
proof -
  let ?s = "\<lparr>m_data = [1, 2, 3], m_offset = 1, m_endian = LittleEndian\<rparr>"
  let ?s1 = "\<lparr>m_data = [1, 2, 3], m_offset = 3, m_endian = LittleEndian\<rparr>"
  have r: "BinaryReader_read Read16 ?s = Inr (UInt16 770, ?s1)"
    by (simp add: BinaryReader_read_def core_read_def BNReadData_def in_bounds_def int_value_def)
  from cursor_sequential [of 0 ?s 0 Read16 "UInt16 770" ?s1] r
  have "GetOffset ?s1 = GetOffset ?s + of_nat (read_size Read16)" by blast
  moreover have "IsEndOfFile ?s1" "\<not> IsEndOfFile ?s" by (simp_all add: IsEndOfFile_def)
  ultimately show ?thesis using r by simp
qed

lemma core_read_endian: "core_read c s = Some (r, s1) \<Longrightarrow> m_endian s1 = m_endian s"
  by (auto simp: core_read_Some_iff)

lemma core_write_endian: "core_write w s = Some s1 \<Longrightarrow> m_endian s1 = m_endian s"
  by (auto simp: core_write_Some_iff)

lemma core_read_LittleEndian:
  assumes "m_endian s = LittleEndian"
  shows "core_read Read16 s = core_read ReadLE16 s"
    and "core_read Read32 s = core_read ReadLE32 s"
    and "core_read Read64 s = core_read ReadLE64 s"
  using assms by (simp_all add: core_read_def split: option.splits)

lemma core_write_LittleEndian:
  assumes "m_endian s = LittleEndian"
  shows "core_write (Write16 a) s = core_write (WriteLE16 a) s"
    and "core_write (Write32 b) s = core_write (WriteLE32 b) s"
    and "core_write (Write64 d) s = core_write (WriteLE64 d) s"
  using assms by (simp_all add: core_write_def)

text \<open>
  Claim C10. A reader or writer constructed without a byte order uses little-endian:
  \<^verbatim>\<open>GetEndianness()\<close> returns \<^verbatim>\<open>LittleEndian\<close>; only \<^verbatim>\<open>SetEndianness\<close> changes what it
  returns (seeking, reading and writing do not); and while it returns \<^verbatim>\<open>LittleEndian\<close>
  the operations \<^verbatim>\<open>Read16\<close>, \<^verbatim>\<open>Read32\<close>, \<^verbatim>\<open>Read64\<close>, \<^verbatim>\<open>Write16\<close>, \<^verbatim>\<open>Write32\<close>,
  \<^verbatim>\<open>Write64\<close> and their \<^verbatim>\<open>Try\<close> variants do exactly what \<^verbatim>\<open>ReadLE16\<close>, \<^verbatim>\<open>ReadLE32\<close>,
  \<^verbatim>\<open>ReadLE64\<close>, \<^verbatim>\<open>WriteLE16\<close>, \<^verbatim>\<open>WriteLE32\<close>, \<^verbatim>\<open>WriteLE64\<close> and theirs do on the
  same data.
\<close>

theorem default_LittleEndian:
  "GetEndianness (stream_ctor_default data) = LittleEndian
   \<and> GetEndianness (stream_ctor data e) = e
   \<and> GetEndianness (SetEndianness e s) = e
   \<and> (BinaryReader_read c s = Inr (r, s1) \<longrightarrow> GetEndianness s1 = GetEndianness s)
   \<and> (BinaryWriter_write w s = Inr s2 \<longrightarrow> GetEndianness s2 = GetEndianness s)
   \<and> GetEndianness (Seek pos s) = GetEndianness s
   \<and> GetEndianness (SeekRelative delta s) = GetEndianness s
   \<and> GetEndianness (snd (snd (BinaryReader_try c dest s))) = GetEndianness s
   \<and> GetEndianness (snd (BinaryWriter_try w s)) = GetEndianness s
   \<and> (GetEndianness s = LittleEndian \<longrightarrow>
        BinaryReader_read Read16 s = BinaryReader_read ReadLE16 s
        \<and> BinaryReader_read Read32 s = BinaryReader_read ReadLE32 s
        \<and> BinaryReader_read Read64 s = BinaryReader_read ReadLE64 s
        \<and> BinaryReader_try Read16 dest s = BinaryReader_try ReadLE16 dest s
        \<and> BinaryReader_try Read32 dest s = BinaryReader_try ReadLE32 dest s
        \<and> BinaryReader_try Read64 dest s = BinaryReader_try ReadLE64 dest s
        \<and> BinaryWriter_write (Write16 a) s = BinaryWriter_write (WriteLE16 a) s
        \<and> BinaryWriter_write (Write32 b) s = BinaryWriter_write (WriteLE32 b) s
        \<and> BinaryWriter_write (Write64 d) s = BinaryWriter_write (WriteLE64 d) s
        \<and> BinaryWriter_try (Write16 a) s = BinaryWriter_try (WriteLE16 a) s
        \<and> BinaryWriter_try (Write32 b) s = BinaryWriter_try (WriteLE32 b) s
        \<and> BinaryWriter_try (Write64 d) s = BinaryWriter_try (WriteLE64 d) s)"
proof -
  have 1: "GetEndianness (stream_ctor_default data) = LittleEndian"
    by (simp add: GetEndianness_def stream_ctor_default_def stream_ctor_def)
  have 2: "GetEndianness (SetEndianness e s) = e"
    by (simp add: GetEndianness_def SetEndianness_def)
  have 3: "GetEndianness (Seek pos s) = GetEndianness s"
    by (simp add: GetEndianness_def Seek_def)
  have 4: "GetEndianness (SeekRelative delta s) = GetEndianness s"
    by (simp add: GetEndianness_def SeekRelative_def)
  have 5: "GetEndianness (snd (snd (BinaryReader_try c dest s))) = GetEndianness s"
    by (auto simp: GetEndianness_def BinaryReader_try_def core_read_endian split: option.splits)
  have 6: "GetEndianness (snd (BinaryWriter_try w s)) = GetEndianness s"
    by (auto simp: GetEndianness_def BinaryWriter_try_def core_write_endian split: option.splits)
  have 7: "BinaryReader_read Read16 s = BinaryReader_read ReadLE16 s
        \<and> BinaryReader_read Read32 s = BinaryReader_read ReadLE32 s
        \<and> BinaryReader_read Read64 s = BinaryReader_read ReadLE64 s
        \<and> BinaryReader_try Read16 dest s = BinaryReader_try ReadLE16 dest s
        \<and> BinaryReader_try Read32 dest s = BinaryReader_try ReadLE32 dest s
        \<and> BinaryReader_try Read64 dest s = BinaryReader_try ReadLE64 dest s"
    if "GetEndianness s = LittleEndian"
    using core_read_LittleEndian [of s] that
    by (simp add: GetEndianness_def BinaryReader_read_def BinaryReader_try_def)
  have 8: "BinaryWriter_write (Write16 a) s = BinaryWriter_write (WriteLE16 a) s
        \<and> BinaryWriter_write (Write32 b) s = BinaryWriter_write (WriteLE32 b) s
        \<and> BinaryWriter_write (Write64 d) s = BinaryWriter_write (WriteLE64 d) s
        \<and> BinaryWriter_try (Write16 a) s = BinaryWriter_try (WriteLE16 a) s
        \<and> BinaryWriter_try (Write32 b) s = BinaryWriter_try (WriteLE32 b) s
        \<and> BinaryWriter_try (Write64 d) s = BinaryWriter_try (WriteLE64 d) s"
    if "GetEndianness s = LittleEndian"
    using core_write_LittleEndian [of s] that
    by (simp add: GetEndianness_def BinaryWriter_write_def BinaryWriter_try_def)
  have 9: "GetEndianness (stream_ctor data e) = e"
    by (simp add: GetEndianness_def stream_ctor_def)
  have 10: "BinaryReader_read c s = Inr (r, s1) \<longrightarrow> GetEndianness s1 = GetEndianness s"
    by (auto simp: GetEndianness_def BinaryReader_read_def core_read_endian split: option.splits)
  have 11: "BinaryWriter_write w s = Inr s2 \<longrightarrow> GetEndianness s2 = GetEndianness s"
    by (auto simp: GetEndianness_def BinaryWriter_write_def core_write_endian split: option.splits)
  from 1 2 3 4 5 6 7 8 9 10 11 show ?thesis by blast
qed

theorem default_LittleEndian_witness:
  "GetEndianness (stream_ctor_default [1, 2]) = LittleEndian
   \<and> BinaryReader_read Read16 (stream_ctor_default [1, 2])
       = BinaryReader_read ReadLE16 (stream_ctor_default [1, 2])
   \<and> BinaryReader_read Read16 (stream_ctor_default [1, 2])
       = Inr (UInt16 513, \<lparr>m_data = [1, 2], m_offset = 2, m_endian = LittleEndian\<rparr>)
   \<and> BinaryReader_read ReadBE16 (stream_ctor_default [1, 2])
       = Inr (UInt16 258, \<lparr>m_data = [1, 2], m_offset = 2, m_endian = LittleEndian\<rparr>)"
proof -
  have e: "GetEndianness (stream_ctor_default [1, 2]) = LittleEndian"
    by (simp add: GetEndianness_def stream_ctor_default_def stream_ctor_def)
  from default_LittleEndian [of "[1, 2]" LittleEndian "stream_ctor_default [1, 2]"] e
  have "BinaryReader_read Read16 (stream_ctor_default [1, 2])
          = BinaryReader_read ReadLE16 (stream_ctor_default [1, 2])"
    by blast
  moreover have "BinaryReader_read ReadLE16 (stream_ctor_default [1, 2])
       = Inr (UInt16 513, \<lparr>m_data = [1, 2], m_offset = 2, m_endian = LittleEndian\<rparr>)"
    by (simp add: BinaryReader_read_def core_read_def BNReadData_def in_bounds_def int_value_def
          stream_ctor_default_def stream_ctor_def)
  moreover have "BinaryReader_read ReadBE16 (stream_ctor_default [1, 2])
       = Inr (UInt16 258, \<lparr>m_data = [1, 2], m_offset = 2, m_endian = LittleEndian\<rparr>)"
    by (simp add: BinaryReader_read_def core_read_def BNReadData_def in_bounds_def int_value_def
          stream_ctor_default_def stream_ctor_def)
  ultimately show ?thesis using e by simp
qed

end
